theory Spec2Isabelle
  imports Complex_Main "HOL-Library.Sublist" "HOL-Library.AList"
begin

section \<open>JavaScript values and strings\<close>

text \<open>
  The cache of \<^verbatim>\<open>src/utils/CacheManager.ts\<close> stores values of type \<^verbatim>\<open>any\<close>.
  The coordinator only ever asks whether a cached value is truthy, so a value is one of
  the JSON shapes; \<open>JNull\<close> stands for both \<^verbatim>\<open>null\<close> and \<^verbatim>\<open>undefined\<close>.
\<close>

datatype jsval =
    JNull
  | JBool bool
  | JNum int
  | JStr string
  | JArr "jsval list"
  | JObj "(string \<times> jsval) list"

fun truthy :: "jsval \<Rightarrow> bool" where
  "truthy JNull = False"
| "truthy (JBool b) = b"
| "truthy (JNum n) = (n \<noteq> 0)"
| "truthy (JStr s) = (s \<noteq> [])"
| "truthy (JArr xs) = True"
| "truthy (JObj kvs) = True"

text \<open>
  A string is a list of characters, one \<open>char\<close> for one UTF-16 code unit in the range
  0..255 (Latin-1). On that range \<^verbatim>\<open>toLowerCase\<close> maps A-Z and the capital letters
  0xC0..0xDE (without the multiplication sign 0xD7) thirty-two places up and leaves
  everything else alone; the white space of \<^verbatim>\<open>\s\<close> and of \<^verbatim>\<open>trim\<close> is
  TAB, LF, VT, FF, CR, SPACE and NBSP.
\<close>

definition toLowerChar :: "char \<Rightarrow> char" where
  "toLowerChar c =
     (let n = (of_char c :: nat)
      in if (65 \<le> n \<and> n \<le> 90) \<or> (192 \<le> n \<and> n \<le> 222 \<and> n \<noteq> 215)
         then char_of (n + 32) else c)"

definition toLowerCase :: "string \<Rightarrow> string" where
  "toLowerCase s = map toLowerChar s"

definition isWhiteSpace :: "char \<Rightarrow> bool" where
  "isWhiteSpace c = (of_char c \<in> {9, 10, 11, 12, 13, 32, 160 :: nat})"

definition trim :: "string \<Rightarrow> string" where
  "trim s = rev (dropWhile isWhiteSpace (rev (dropWhile isWhiteSpace s)))"

text \<open>\<^verbatim>\<open>s.includes(sub)\<close> and \<^verbatim>\<open>s.startsWith(sub)\<close>.\<close>

fun str_includes :: "string \<Rightarrow> string \<Rightarrow> bool" where
  "str_includes [] sub = (sub = [])"
| "str_includes (c # cs) sub = (prefix sub (c # cs) \<or> str_includes cs sub)"

definition startsWith :: "string \<Rightarrow> string \<Rightarrow> bool" where
  "startsWith s sub = prefix sub s"

text \<open>
  \<^verbatim>\<open>s.split(/\s+/)\<close>: the pieces between the maximal runs of white space. A run at
  the start or at the end of \<open>s\<close> leaves an empty piece there, and the empty string
  splits into one empty piece.
\<close>

function splitAux :: "string \<Rightarrow> string \<Rightarrow> string list" where
  "splitAux acc [] = [rev acc]"
| "splitAux acc (c # cs) =
     (if isWhiteSpace c then rev acc # splitAux [] (dropWhile isWhiteSpace cs)
      else splitAux (c # acc) cs)"
  by pat_completeness auto
termination
  by (relation "measure (\<lambda>(acc, s). length s)")
     (auto simp: less_Suc_eq_le length_dropWhile_le)

definition splitWs :: "string \<Rightarrow> string list" where
  "splitWs s = splitAux [] s"

text \<open>
  Template literals print an integer in decimal. That holds for integers of a magnitude
  below \<open>10 ^ 21\<close>, the range of database ids; from there on JavaScript prints the
  exponent form, which \<open>showInt\<close> does not follow.
\<close>

definition digit :: "nat \<Rightarrow> char" where
  "digit d = char_of (48 + d)"

function showNat :: "nat \<Rightarrow> string" where
  "showNat n = (if n < 10 then [digit n] else showNat (n div 10) @ [digit (n mod 10)])"
  by pat_completeness auto
termination
  by (relation "measure id") auto

definition showInt :: "int \<Rightarrow> string" where
  "showInt i = (if i < 0 then CHR ''-'' # showNat (nat (- i)) else showNat (nat i))"

declare splitAux.simps [simp del]
declare showNat.simps [simp del]

section \<open>The expiring key-value store (class CacheManager)\<close>

record CacheEntry =
  data :: jsval
  timestamp :: int
  ttl :: int

text \<open>
  \<open>memoryCache\<close> is a JavaScript \<^verbatim>\<open>Map\<close>: it iterates in insertion order, \<^verbatim>\<open>set\<close> on a
  key it holds replaces the value where the key stands, and \<^verbatim>\<open>set\<close> on a new key appends.
  That is an association list with \<open>AList.update\<close>, \<open>AList.delete\<close> and \<open>map_of\<close>.
  \<^verbatim>\<open>Date.now()\<close> is the argument \<open>now\<close> of every operation that reads the clock.
\<close>

record CacheManager =
  memoryCache :: "(string \<times> CacheEntry) list"
  maxSize :: int
  defaultTTL :: int

definition CacheManager_new :: "int option \<Rightarrow> int option \<Rightarrow> CacheManager" where
  "CacheManager_new maxSize' defaultTTL' =
     \<lparr> memoryCache = [],
       maxSize = (case maxSize' of None \<Rightarrow> 1000 | Some m \<Rightarrow> m),
       defaultTTL = (case defaultTTL' of None \<Rightarrow> 5 * 60 * 1000 | Some t \<Rightarrow> t) \<rparr>"

definition isExpired :: "int \<Rightarrow> CacheEntry \<Rightarrow> bool" where
  "isExpired now entry = (now - timestamp entry > ttl entry)"

definition cleanupExpired :: "int \<Rightarrow> CacheManager \<Rightarrow> CacheManager" where
  "cleanupExpired now c =
     c\<lparr> memoryCache := filter (\<lambda>(key, entry). \<not> isExpired now entry) (memoryCache c) \<rparr>"

text \<open>
  \<^verbatim>\<open>set(key, data, ttl = this.defaultTTL)\<close>: sweep, then evict the first key when the map
  is full, then store. \<open>evictOldest\<close> is the second of these steps, the statement
  \<^verbatim>\<open>if (this.memoryCache.size >= this.maxSize) { ... }\<close> of \<^verbatim>\<open>set\<close>. Its inner test
  \<^verbatim>\<open>if (firstKey)\<close> is a truthiness test: it fails on an empty map (\<^verbatim>\<open>undefined\<close>) and
  on the empty string.
\<close>

definition evictOldest :: "CacheManager \<Rightarrow> CacheManager" where
  "evictOldest c =
     (if int (length (memoryCache c)) \<ge> maxSize c then
        (case memoryCache c of
           [] \<Rightarrow> c
         | (firstKey, e) # rest \<Rightarrow>
             if firstKey \<noteq> [] then c\<lparr> memoryCache := AList.delete firstKey (memoryCache c) \<rparr>
             else c)
      else c)"

definition CacheManager_set ::
  "int \<Rightarrow> string \<Rightarrow> jsval \<Rightarrow> int option \<Rightarrow> CacheManager \<Rightarrow> CacheManager" where
  "CacheManager_set now key d ttl' c =
     (let c1 = evictOldest (cleanupExpired now c);
          entry = \<lparr> data = d, timestamp = now,
                    ttl = (case ttl' of None \<Rightarrow> defaultTTL c | Some t \<Rightarrow> t) \<rparr>
      in c1\<lparr> memoryCache := AList.update key entry (memoryCache c1) \<rparr>)"

text \<open>\<^verbatim>\<open>get(key)\<close> returns the data or \<^verbatim>\<open>null\<close>, and deletes an entry it finds expired.\<close>

definition CacheManager_get :: "int \<Rightarrow> string \<Rightarrow> CacheManager \<Rightarrow> jsval \<times> CacheManager" where
  "CacheManager_get now key c =
     (case map_of (memoryCache c) key of
        None \<Rightarrow> (JNull, c)
      | Some entry \<Rightarrow>
          if isExpired now entry
          then (JNull, c\<lparr> memoryCache := AList.delete key (memoryCache c) \<rparr>)
          else (data entry, c))"

definition CacheManager_delete :: "string \<Rightarrow> CacheManager \<Rightarrow> bool \<times> CacheManager" where
  "CacheManager_delete key c =
     (key \<in> fst ` set (memoryCache c),
      c\<lparr> memoryCache := AList.delete key (memoryCache c) \<rparr>)"

definition CacheManager_clear :: "CacheManager \<Rightarrow> CacheManager" where
  "CacheManager_clear c = c\<lparr> memoryCache := [] \<rparr>"

definition CacheManager_keys :: "int \<Rightarrow> CacheManager \<Rightarrow> string list \<times> CacheManager" where
  "CacheManager_keys now c =
     (let c1 = cleanupExpired now c in (map fst (memoryCache c1), c1))"

section \<open>The cache coordinator (class NavigationCacheManager)\<close>

datatype error = TypeError | FetchError string

record NavigationCacheManager =
  cache :: CacheManager
  hits :: nat
  misses :: nat
  lastCleanup :: int

definition NavigationCacheManager_new :: "int \<Rightarrow> NavigationCacheManager" where
  "NavigationCacheManager_new now =
     \<lparr> cache = CacheManager_new (Some 2000) (Some (10 * 60 * 1000)),
       hits = 0, misses = 0, lastCleanup = now \<rparr>"

text \<open>
  \<^verbatim>\<open>getGroupsWithSites\<close>, \<^verbatim>\<open>getSites\<close> and \<^verbatim>\<open>getConfigs\<close> have the same body
  and differ in \<^verbatim>\<open>cacheKey\<close> only; \<open>readThrough\<close> is that body. The awaited
  \<^verbatim>\<open>fetchFunction()\<close> is its outcome \<open>fetched\<close>: \<open>Inr\<close> the data it resolves
  to, \<open>Inl\<close> the error it rejects with. The clock reads \<open>now\<close> at the first
  \<^verbatim>\<open>cache.get\<close> and \<open>later\<close> once the fetch has settled. The result is the value returned
  or the error thrown, with the coordinator as the call leaves it.
\<close>

definition readThrough ::
  "string \<Rightarrow> int \<Rightarrow> int \<Rightarrow> error + jsval \<Rightarrow> bool \<Rightarrow> NavigationCacheManager
     \<Rightarrow> (error + jsval) \<times> NavigationCacheManager" where
  "readThrough cacheKey now later fetched forceRefresh n =
     (let (cached, c1) =
            (if \<not> forceRefresh then CacheManager_get now cacheKey (cache n)
             else (JNull, cache n))
      in if \<not> forceRefresh \<and> truthy cached
         then (Inr cached, n\<lparr> cache := c1, hits := hits n + 1 \<rparr>)
         else
           (let n1 = n\<lparr> cache := c1, misses := misses n + 1 \<rparr>
            in case fetched of
                 Inr d \<Rightarrow>
                   (Inr d, n1\<lparr> cache := CacheManager_set later cacheKey d None (cache n1) \<rparr>)
               | Inl err \<Rightarrow>
                   (let (cached2, c2) = CacheManager_get later cacheKey (cache n1)
                    in if truthy cached2 then (Inr cached2, n1\<lparr> cache := c2 \<rparr>)
                       else (Inl err, n1\<lparr> cache := c2 \<rparr>))))"

definition getGroupsWithSites ::
  "int \<Rightarrow> int \<Rightarrow> error + jsval \<Rightarrow> bool \<Rightarrow> NavigationCacheManager
     \<Rightarrow> (error + jsval) \<times> NavigationCacheManager" where
  "getGroupsWithSites now later fetched forceRefresh n =
     readThrough ''groupsWithSites'' now later fetched forceRefresh n"

text \<open>\<^verbatim>\<open>groupId ? `sites_group_${groupId}` : 'all_sites'\<close>: an absent id and the id 0 are falsy.\<close>

definition sitesCacheKey :: "int option \<Rightarrow> string" where
  "sitesCacheKey groupId =
     (case groupId of
        None \<Rightarrow> ''all_sites''
      | Some g \<Rightarrow> if g \<noteq> 0 then ''sites_group_'' @ showInt g else ''all_sites'')"

definition getSites ::
  "int \<Rightarrow> int \<Rightarrow> error + jsval \<Rightarrow> int option \<Rightarrow> bool \<Rightarrow> NavigationCacheManager
     \<Rightarrow> (error + jsval) \<times> NavigationCacheManager" where
  "getSites now later fetched groupId forceRefresh n =
     readThrough (sitesCacheKey groupId) now later fetched forceRefresh n"

definition getConfigs ::
  "int \<Rightarrow> int \<Rightarrow> error + jsval \<Rightarrow> bool \<Rightarrow> NavigationCacheManager
     \<Rightarrow> (error + jsval) \<times> NavigationCacheManager" where
  "getConfigs now later fetched forceRefresh n =
     readThrough ''configs'' now later fetched forceRefresh n"

datatype cacheType = Groups | Sites | Configs | All

definition keyMatches :: "cacheType \<Rightarrow> string \<Rightarrow> bool" where
  "keyMatches type key =
     (if type = Groups \<and> str_includes key ''group'' then True
      else if type = Sites \<and> str_includes key ''site'' then True
      else if type = Configs \<and> str_includes key ''config'' then True
      else False)"

definition invalidate :: "int \<Rightarrow> cacheType \<Rightarrow> NavigationCacheManager \<Rightarrow> NavigationCacheManager" where
  "invalidate now type n =
     (if type = All then n\<lparr> cache := CacheManager_clear (cache n) \<rparr>
      else
        (let (keys, c1) = CacheManager_keys now (cache n);
             keysToDelete = filter (keyMatches type) keys
         in n\<lparr> cache := fold (\<lambda>key c. snd (CacheManager_delete key c)) keysToDelete c1 \<rparr>))"

section \<open>The search engine (class SmartSearchEngine)\<close>

text \<open>
  Modelled from the spec: the interfaces \<^verbatim>\<open>Group\<close> and \<^verbatim>\<open>Site\<close> of \<^verbatim>\<open>API/http\<close> and
  \<^verbatim>\<open>SearchResultItem\<close> of \<^verbatim>\<open>./search\<close>, whose declarations are not among the sources
  (GroupRecord, SiteRecord and SearchResult in the data model of the spec). The
  records hold the fields the engine reads and writes, under the names the code uses
  for them (\<^verbatim>\<open>id\<close>, \<^verbatim>\<open>name\<close>, \<^verbatim>\<open>notes\<close> and \<^verbatim>\<open>type\<close> with a prefix); description
  and notes are optional. \<^verbatim>\<open>created_at\<close> is the time
  \<^verbatim>\<open>new Date(created_at).getTime()\<close> parses it to, \<open>None\<close> when it is absent or does not
  parse (\<^verbatim>\<open>NaN\<close>). An item is a site when it has the property \<^verbatim>\<open>group_id\<close>.
\<close>

record Group =
  g_id :: int
  g_name :: string

record Site =
  s_id :: int
  group_id :: int
  s_name :: string
  url :: string
  description :: "string option"
  s_notes :: "string option"
  created_at :: "int option"

datatype item = SiteItem Site | GroupItem Group

datatype resultType = TSite | TGroup

record SearchResultItem =
  r_type :: resultType
  r_id :: int
  r_groupId :: "int option"
  r_name :: string
  r_url :: "string option"
  r_description :: "string option"
  r_notes :: "string option"
  matchedFields :: "string list"
  semanticScore :: "int option"

record SearchHistoryItem =
  h_query :: string
  h_timestamp :: int
  resultsCount :: nat
  selectedId :: "int option"

record SmartSearchEngine =
  searchHistory :: "SearchHistoryItem list"
  maxHistoryItems :: nat

text \<open>The constructor loads the history that local storage holds.\<close>

definition SmartSearchEngine_new :: "SearchHistoryItem list \<Rightarrow> SmartSearchEngine" where
  "SmartSearchEngine_new loaded = \<lparr> searchHistory = loaded, maxHistoryItems = 100 \<rparr>"

text \<open>
  \<^verbatim>\<open>Array.prototype.sort\<close> is stable; with a comparator that orders the elements
  consistently it returns the one stable arrangement, which inserting each element,
  from the last to the first, before the first element it does not follow computes.
\<close>

fun insertBy :: "('a \<Rightarrow> 'a \<Rightarrow> 'b::{linorder,zero}) \<Rightarrow> 'a \<Rightarrow> 'a list \<Rightarrow> 'a list" where
  "insertBy cmp x [] = [x]"
| "insertBy cmp x (y # ys) = (if cmp x y \<le> 0 then x # y # ys else y # insertBy cmp x ys)"

definition js_sort :: "('a \<Rightarrow> 'a \<Rightarrow> 'b::{linorder,zero}) \<Rightarrow> 'a list \<Rightarrow> 'a list" where
  "js_sort cmp xs = foldr (insertBy cmp) xs []"

definition siteResult :: "Site \<Rightarrow> string list \<Rightarrow> int option \<Rightarrow> SearchResultItem" where
  "siteResult s mf score =
     \<lparr> r_type = TSite, r_id = s_id s, r_groupId = Some (group_id s), r_name = s_name s,
       r_url = Some (url s), r_description = description s, r_notes = s_notes s,
       matchedFields = mf, semanticScore = score \<rparr>"

definition groupResult :: "Group \<Rightarrow> string list \<Rightarrow> int option \<Rightarrow> SearchResultItem" where
  "groupResult g mf score =
     \<lparr> r_type = TGroup, r_id = g_id g, r_groupId = None, r_name = g_name g,
       r_url = None, r_description = None, r_notes = None,
       matchedFields = mf, semanticScore = score \<rparr>"

text \<open>\<^verbatim>\<open>x || ''\<close> on an optional string.\<close>

definition orEmpty :: "string option \<Rightarrow> string" where
  "orEmpty x = (case x of None \<Rightarrow> [] | Some s \<Rightarrow> s)"

definition getItemTextForScoring :: "item \<Rightarrow> string" where
  "getItemTextForScoring it =
     (case it of
        SiteItem s \<Rightarrow>
          toLowerCase (s_name s @ '' '' @ url s @ '' '' @ orEmpty (description s)
                       @ '' '' @ orEmpty (s_notes s))
      | GroupItem g \<Rightarrow> toLowerCase (g_name g))"

fun fuzzyLoop :: "string \<Rightarrow> string \<Rightarrow> bool" where
  "fuzzyLoop text [] = True"
| "fuzzyLoop [] (p # ps) = False"
| "fuzzyLoop (t # ts) (p # ps) = (if t = p then fuzzyLoop ts ps else fuzzyLoop ts (p # ps))"

definition fuzzyMatch :: "string \<Rightarrow> string \<Rightarrow> bool" where
  "fuzzyMatch text pattern =
     (if length pattern = 0 then True
      else if length text < length pattern then False
      else fuzzyLoop text pattern)"

definition calculateRelevanceScore :: "item \<Rightarrow> string list \<Rightarrow> rat" where
  "calculateRelevanceScore it queryTerms =
     (let score =
            fold (\<lambda>term score.
                    (let lowerText = toLowerCase (getItemTextForScoring it)
                     in if lowerText = term then score + 100
                        else if startsWith lowerText term then score + 50
                        else if str_includes lowerText term then score + 20
                        else if fuzzyMatch lowerText term then score + 5
                        else score))
                 queryTerms 0;
          matchedTerms =
            length (filter (\<lambda>term. str_includes (toLowerCase (getItemTextForScoring it)) term)
                      queryTerms)
      in if matchedTerms = length queryTerms then score * (3 / 2) else score)"

definition matchesQuery :: "item \<Rightarrow> string \<Rightarrow> bool" where
  "matchesQuery it query = str_includes (getItemTextForScoring it) query"

text \<open>\<^verbatim>\<open>item.url && ...\<close>: an absent or empty field never matches.\<close>

definition fieldMatches :: "string option \<Rightarrow> string \<Rightarrow> bool" where
  "fieldMatches field query =
     (case field of None \<Rightarrow> False | Some f \<Rightarrow> f \<noteq> [] \<and> str_includes (toLowerCase f) query)"

definition getMatchingFields :: "item \<Rightarrow> string \<Rightarrow> string list" where
  "getMatchingFields it query =
     (case it of
        SiteItem s \<Rightarrow>
          (if str_includes (toLowerCase (s_name s)) query then [''name''] else [])
          @ (if fieldMatches (Some (url s)) query then [''url''] else [])
          @ (if fieldMatches (description s) query then [''description''] else [])
          @ (if fieldMatches (s_notes s) query then [''notes''] else [])
      | GroupItem g \<Rightarrow>
          (if str_includes (toLowerCase (g_name g)) query then [''name''] else []))"

definition performBasicSearch :: "string \<Rightarrow> Group list \<Rightarrow> Site list \<Rightarrow> SearchResultItem list" where
  "performBasicSearch query groups sites =
     map (\<lambda>s. siteResult s (getMatchingFields (SiteItem s) query) None)
         (filter (\<lambda>s. matchesQuery (SiteItem s) query) sites)
     @ map (\<lambda>g. groupResult g (getMatchingFields (GroupItem g) query) None)
           (filter (\<lambda>g. matchesQuery (GroupItem g) query) groups)"

definition queryTermsOf :: "string \<Rightarrow> string list" where
  "queryTermsOf query = filter (\<lambda>term. length term > 0) (splitWs (toLowerCase query))"

definition performSmartSearch :: "string \<Rightarrow> Group list \<Rightarrow> Site list \<Rightarrow> SearchResultItem list" where
  "performSmartSearch query groups sites =
     (let queryTerms = queryTermsOf query;
          scoredResults =
            map (\<lambda>s. (SiteItem s, calculateRelevanceScore (SiteItem s) queryTerms)) sites
            @ map (\<lambda>g. (GroupItem g, calculateRelevanceScore (GroupItem g) queryTerms)) groups;
          highScoreResults =
            take 20 (js_sort (\<lambda>a b. snd b - snd a) (filter (\<lambda>x. snd x > 0) scoredResults))
      in map (\<lambda>(it, score).
                case it of
                  SiteItem s \<Rightarrow> siteResult s (getMatchingFields it query) None
                | GroupItem g \<Rightarrow> groupResult g (getMatchingFields it query) None)
             highScoreResults)"

text \<open>
  \<^verbatim>\<open>calculateSimilarity\<close> returns a double that is compared with 0.7 only. The quotient
  is kept exact here: for strings shorter than \<open>2 ^ 50\<close> the rounded quotient exceeds the
  double nearest to 0.7 exactly when the exact one exceeds seven tenths.
\<close>

definition calculateSimilarity :: "string \<Rightarrow> string \<Rightarrow> rat" where
  "calculateSimilarity str1 str2 =
     (let s1 = toLowerCase str1; s2 = toLowerCase str2
      in if s1 = s2 then 1
         else if str_includes s1 s2 \<or> str_includes s2 s1 then 8 / 10
         else of_nat (length (filter (\<lambda>(a, b). a = b) (zip s1 s2)))
              / of_nat (max (length s1) (length s2)))"

definition semanticScoreOf :: "string \<Rightarrow> string list \<Rightarrow> int" where
  "semanticScoreOf text queryTerms =
     fold (\<lambda>term score.
             fold (\<lambda>word score. if calculateSimilarity term word > 7 / 10 then score + 5 else score)
                  (splitWs text)
                  (if str_includes text term then score + 10 else score))
          queryTerms 0"

text \<open>\<^verbatim>\<open>`${x}`\<close> on an optional string prints \<^verbatim>\<open>undefined\<close> for an absent one.\<close>

definition interpolate :: "string option \<Rightarrow> string" where
  "interpolate x = (case x of None \<Rightarrow> ''undefined'' | Some s \<Rightarrow> s)"

definition siteText :: "Site \<Rightarrow> string" where
  "siteText s =
     toLowerCase (s_name s @ '' '' @ interpolate (description s) @ '' ''
                  @ interpolate (s_notes s) @ '' '' @ url s)"

definition performSemanticSearch :: "string \<Rightarrow> Group list \<Rightarrow> Site list \<Rightarrow> SearchResultItem list" where
  "performSemanticSearch query groups sites =
     (let queryTerms = queryTermsOf query
      in concat (map (\<lambda>s. let score = semanticScoreOf (siteText s) queryTerms
                          in if score > 0 then [siteResult s [''semantic''] (Some score)] else [])
                     sites)
         @ concat (map (\<lambda>g. let score = semanticScoreOf (toLowerCase (g_name g)) queryTerms
                            in if score > 0 then [groupResult g [''semantic''] (Some score)] else [])
                       groups))"

text \<open>
  \<^verbatim>\<open>mergeAndDeduplicate\<close>: the three loops share \<^verbatim>\<open>seenIds\<close>, a set of numbers, and
  \<^verbatim>\<open>results\<close>; \<open>addUnseen\<close> is one loop.
\<close>

definition addUnseen ::
  "SearchResultItem list \<Rightarrow> int set \<times> SearchResultItem list \<Rightarrow> int set \<times> SearchResultItem list" where
  "addUnseen items st =
     fold (\<lambda>item (seenIds, results).
             if r_id item \<notin> seenIds then (insert (r_id item) seenIds, results @ [item])
             else (seenIds, results))
          items st"

definition compareTypeThenFields :: "SearchResultItem \<Rightarrow> SearchResultItem \<Rightarrow> int" where
  "compareTypeThenFields a b =
     (if r_type a \<noteq> r_type b then (if r_type a = TSite then - 1 else 1)
      else int (length (matchedFields b)) - int (length (matchedFields a)))"

definition mergeAndDeduplicate ::
  "SearchResultItem list \<Rightarrow> SearchResultItem list \<Rightarrow> SearchResultItem list option
     \<Rightarrow> SearchResultItem list" where
  "mergeAndDeduplicate basic smart semantic =
     (let st1 = addUnseen basic ({}, []);
          st2 = addUnseen smart st1;
          st3 = (case semantic of None \<Rightarrow> st2 | Some sem \<Rightarrow> addUnseen sem st2)
      in js_sort compareTypeThenFields (snd st3))"

text \<open>\<^verbatim>\<open>semanticScore || 0\<close>.\<close>

definition scoreOrZero :: "SearchResultItem \<Rightarrow> int" where
  "scoreOrZero a = (case semanticScore a of None \<Rightarrow> 0 | Some sc \<Rightarrow> sc)"

definition compareRelevance :: "SearchResultItem \<Rightarrow> SearchResultItem \<Rightarrow> int" where
  "compareRelevance a b =
     (if scoreOrZero a \<noteq> scoreOrZero b then scoreOrZero b - scoreOrZero a
      else compareTypeThenFields a b)"

definition sortByRelevance :: "SearchResultItem list \<Rightarrow> string \<Rightarrow> SearchResultItem list" where
  "sortByRelevance results query = js_sort compareRelevance results"

text \<open>
  \<^verbatim>\<open>getPopularRecommendations\<close> never reads \<^verbatim>\<open>groups\<close>. A comparator result of
  \<^verbatim>\<open>NaN\<close> counts as 0. When every site has a \<^verbatim>\<open>created_at\<close> that parses, the
  comparator is consistent and \<open>js_sort\<close> gives the order of the code. When some site
  has none, the comparator is not consistent, the order the engine's sort returns
  depends on its algorithm, and \<open>js_sort\<close> gives one arrangement of the same sites,
  not necessarily the engine's.
\<close>

definition compareCreated :: "Site \<Rightarrow> Site \<Rightarrow> int" where
  "compareCreated a b =
     (case (created_at b, created_at a) of (Some tb, Some ta) \<Rightarrow> tb - ta | _ \<Rightarrow> 0)"

definition getPopularRecommendations :: "Site list \<Rightarrow> SearchResultItem list" where
  "getPopularRecommendations sites =
     map (\<lambda>s. siteResult s [''name''] None) (take 10 (js_sort compareCreated sites))"

text \<open>
  \<^verbatim>\<open>recordSearch\<close>: \<^verbatim>\<open>unshift\<close> puts the new entry first, \<^verbatim>\<open>slice(0, max)\<close> keeps the
  first \<open>max\<close> entries. Saving to local storage changes nothing in memory and its
  failure is caught.
\<close>

definition recordSearch :: "int \<Rightarrow> string \<Rightarrow> nat \<Rightarrow> SmartSearchEngine \<Rightarrow> SmartSearchEngine" where
  "recordSearch now query count e =
     (let h = \<lparr> h_query = query, h_timestamp = now, resultsCount = count, selectedId = None \<rparr>
              # searchHistory e
      in e\<lparr> searchHistory :=
              (if length h > maxHistoryItems e then take (maxHistoryItems e) h else h) \<rparr>)"

text \<open>
  \<^verbatim>\<open>search\<close>. A collection that is \<^verbatim>\<open>null\<close> is \<open>None\<close>. Iterating it
  (\<^verbatim>\<open>for (const site of sites)\<close> in \<^verbatim>\<open>performBasicSearch\<close>, the first pass to run, and
  \<^verbatim>\<open>[...sites]\<close> in \<^verbatim>\<open>getPopularRecommendations\<close>) throws a \<^verbatim>\<open>TypeError\<close>, and nothing
  in \<^verbatim>\<open>search\<close> catches it.
\<close>

definition search ::
  "int \<Rightarrow> string \<Rightarrow> Group list option \<Rightarrow> Site list option \<Rightarrow> SmartSearchEngine
     \<Rightarrow> error + (SearchResultItem list \<times> SmartSearchEngine)" where
  "search now query groups sites e =
     (if query = [] \<or> trim query = [] then
        (case sites of
           None \<Rightarrow> Inl TypeError
         | Some ss \<Rightarrow> Inr (getPopularRecommendations ss, e))
      else
        (let trimmedQuery = toLowerCase (trim query)
         in case sites of
              None \<Rightarrow> Inl TypeError
            | Some ss \<Rightarrow>
                (case groups of
                   None \<Rightarrow> Inl TypeError
                 | Some gs \<Rightarrow>
                     (let basicResults = performBasicSearch trimmedQuery gs ss;
                          smartResults = performSmartSearch trimmedQuery gs ss;
                          semanticResults = performSemanticSearch trimmedQuery gs ss;
                          allResults =
                            mergeAndDeduplicate basicResults smartResults (Some semanticResults);
                          e' = recordSearch now query (length allResults) e
                      in Inr (sortByRelevance allResults trimmedQuery, e')))))"

section \<open>Sequences of store operations\<close>

text \<open>
  A client of the store calls \<^verbatim>\<open>set\<close>, \<^verbatim>\<open>delete\<close> and \<^verbatim>\<open>clear\<close> in any order, each
  call at the time the clock shows then.
\<close>

datatype cacheOp = OpSet string jsval "int option" | OpDelete string | OpClear

fun applyOp :: "int \<times> cacheOp \<Rightarrow> CacheManager \<Rightarrow> CacheManager" where
  "applyOp (now, OpSet key d ttl') c = CacheManager_set now key d ttl' c"
| "applyOp (now, OpDelete key) c = snd (CacheManager_delete key c)"
| "applyOp (now, OpClear) c = CacheManager_clear c"

definition runOps :: "(int \<times> cacheOp) list \<Rightarrow> CacheManager \<Rightarrow> CacheManager" where
  "runOps ops c = fold applyOp ops c"

fun keyNonEmpty :: "cacheOp \<Rightarrow> bool" where
  "keyNonEmpty (OpSet key d ttl') = (key \<noteq> [])"
| "keyNonEmpty (OpDelete key) = True"
| "keyNonEmpty OpClear = True"

text \<open>
  The store as a well-formed bounded map: no key twice, no more entries than
  \<open>maxSize\<close>, no empty key.
\<close>

definition cacheInv :: "CacheManager \<Rightarrow> bool" where
  "cacheInv c = (distinct (map fst (memoryCache c))
                 \<and> int (length (memoryCache c)) \<le> maxSize c
                 \<and> [] \<notin> fst ` set (memoryCache c))"

text \<open>
  An insertion is \<^verbatim>\<open>set(key, data, ttl)\<close> at a time: (time, key, data, ttl). In a list
  of insertions none expires when every later insertion happens within the \<open>ttl\<close> of
  every earlier one.
\<close>

type_synonym insertion = "int \<times> string \<times> jsval \<times> int"

definition keyOf :: "insertion \<Rightarrow> string" where
  "keyOf = (\<lambda>(t, k, v, l). k)"

definition entryOf :: "insertion \<Rightarrow> string \<times> CacheEntry" where
  "entryOf = (\<lambda>(t, k, v, l). (k, \<lparr> data = v, timestamp = t, ttl = l \<rparr>))"

definition insertAll :: "insertion list \<Rightarrow> CacheManager \<Rightarrow> CacheManager" where
  "insertAll ins c = runOps (map (\<lambda>(t, k, v, l). (t, OpSet k v (Some l))) ins) c"

fun neverExpires :: "insertion list \<Rightarrow> bool" where
  "neverExpires [] = True"
| "neverExpires ((t, k, v, l) # rest) =
     (list_all (\<lambda>(t', k', v', l'). t' - t \<le> l) rest \<and> neverExpires rest)"

section \<open>Example states\<close>

text \<open>
  A coordinator that has fetched the three collections at the times 0, 1 and 2; the
  entries live for the ten minutes of the coordinator's default ttl.
\<close>

definition demoCache :: NavigationCacheManager where
  "demoCache =
     snd (getConfigs 2 2 (Inr (JObj [])) False
       (snd (getSites 1 1 (Inr (JArr [])) (Some 7) False
         (snd (getGroupsWithSites 0 0 (Inr (JArr [JStr ''g''])) False
                (NavigationCacheManager_new 0))))))"

text \<open>Records for the examples: a site without description and notes, and collections
  in which a group and a site share the id 1.\<close>

definition github :: Site where
  "github = \<lparr> s_id = 1, group_id = 1, s_name = ''GitHub'', url = ''https://github.com'',
              description = None, s_notes = None, created_at = None \<rparr>"

definition devGroup :: Group where
  "devGroup = \<lparr> g_id = 1, g_name = ''Dev'' \<rparr>"

definition devDocs :: Site where
  "devDocs = \<lparr> s_id = 1, group_id = 1, s_name = ''DevDocs'', url = ''https://devdocs.io'',
               description = None, s_notes = None, created_at = None \<rparr>"

definition siteAbc :: Site where
  "siteAbc = \<lparr> s_id = 2, group_id = 1, s_name = ''abc'', url = ''https://a.example'',
               description = None, s_notes = None, created_at = None \<rparr>"

definition siteAbcdef :: Site where
  "siteAbcdef = \<lparr> s_id = 1, group_id = 1, s_name = ''abcdef'', url = ''https://b.example'',
                  description = None, s_notes = None, created_at = None \<rparr>"

definition siteAbcdefUrl :: Site where
  "siteAbcdefUrl = \<lparr> s_id = 3, group_id = 1, s_name = ''abcdef'', url = ''https://abcdef.example'',
                     description = None, s_notes = None, created_at = None \<rparr>"

definition emptyEngine :: "nat \<Rightarrow> SmartSearchEngine" where
  "emptyEngine capacity = \<lparr> searchHistory = [], maxHistoryItems = capacity \<rparr>"

section \<open>Notions for the statements about merging and ranking\<close>

text \<open>
  \<open>keepUnseen seen xs\<close> keeps, in order, the elements of \<open>xs\<close> whose id is neither in
  \<open>seen\<close> nor the id of an earlier element: what one loop of \<^verbatim>\<open>mergeAndDeduplicate\<close>
  appends to \<^verbatim>\<open>results\<close>. \<open>before x y xs\<close>: some occurrence of \<open>x\<close> in \<open>xs\<close> has an
  occurrence of \<open>y\<close> after it, so \<open>x\<close> ranks above \<open>y\<close>.
\<close>

fun keepUnseen :: "int set \<Rightarrow> SearchResultItem list \<Rightarrow> SearchResultItem list" where
  "keepUnseen seen [] = []"
| "keepUnseen seen (x # xs) =
     (if r_id x \<in> seen then keepUnseen seen xs
      else x # keepUnseen (insert (r_id x) seen) xs)"

fun before :: "'a \<Rightarrow> 'a \<Rightarrow> 'a list \<Rightarrow> bool" where
  "before x y [] = False"
| "before x y (z # zs) = ((z = x \<and> y \<in> set zs) \<or> before x y zs)"

section \<open>The store: freshness, capacity and eviction order\<close>

lemma map_of_set_same:
  "map_of (memoryCache (CacheManager_set now k v t c)) k
     = Some \<lparr> data = v, timestamp = now, ttl = (case t of None \<Rightarrow> defaultTTL c | Some x \<Rightarrow> x) \<rparr>"
  by (simp add: CacheManager_set_def Let_def update_conv')

lemma maxSize_cleanup [simp]: "maxSize (cleanupExpired now c) = maxSize c"
  by (simp add: cleanupExpired_def)

lemma maxSize_evict [simp]: "maxSize (evictOldest c) = maxSize c"
  by (simp add: evictOldest_def split: list.splits)

lemma maxSize_set [simp]: "maxSize (CacheManager_set now k v t c) = maxSize c"
  by (simp add: CacheManager_set_def Let_def)

lemma cacheInv_cleanup:
  assumes "cacheInv c"
  shows "cacheInv (cleanupExpired now c)"
proof -
  let ?m = "memoryCache c"
  let ?f = "filter (\<lambda>(key, entry). \<not> isExpired now entry) ?m"
  have "int (length ?f) \<le> int (length ?m)" by simp
  also have "\<dots> \<le> maxSize c" using assms by (simp add: cacheInv_def)
  finally have "int (length ?f) \<le> maxSize c" .
  moreover have "distinct (map fst ?f)"
    using assms by (simp add: cacheInv_def distinct_map_filter)
  moreover have "[] \<notin> fst ` set ?f"
    using assms by (auto simp: cacheInv_def)
  ultimately show ?thesis
    by (simp add: cacheInv_def cleanupExpired_def)
qed

lemma delete_first_distinct:
  "distinct (map fst ((k, e) # rest)) \<Longrightarrow> AList.delete k ((k, e) # rest) = rest"
  by (simp add: delete_id)

text \<open>After the eviction step a store that kept the invariant has room for one entry.\<close>

lemma evict_makes_room:
  assumes "cacheInv c" and "1 \<le> maxSize c"
  shows "cacheInv (evictOldest c) \<and> int (length (memoryCache (evictOldest c))) < maxSize c"
proof (cases "int (length (memoryCache c)) \<ge> maxSize c")
  case False
  then show ?thesis using assms by (simp add: evictOldest_def)
next
  case True
  then obtain k e rest where m: "memoryCache c = (k, e) # rest"
    using assms(2) by (cases "memoryCache c") auto
  have k: "k \<noteq> []" using assms(1) m by (auto simp: cacheInv_def)
  have d: "AList.delete k ((k, e) # rest) = rest"
    using assms(1) m by (intro delete_first_distinct) (simp add: cacheInv_def)
  have ev: "evictOldest c = c\<lparr> memoryCache := rest \<rparr>"
    using True m k d by (simp add: evictOldest_def)
  show ?thesis using assms(1) m by (auto simp: ev cacheInv_def)
qed

lemma length_update_le: "length (AList.update k v al) \<le> Suc (length al)"
  by (induction al) auto

lemma update_new: "k \<notin> fst ` set al \<Longrightarrow> AList.update k v al = al @ [(k, v)]"
  by (induction al) auto

lemma update_fits:
  assumes "int (length al) < M"
  shows "int (length (AList.update k v al)) \<le> M"
proof -
  have "length (AList.update k v al) \<le> Suc (length al)" by (rule length_update_le)
  then show ?thesis using assms by linarith
qed

lemma cacheInv_set:
  assumes "cacheInv c" and "1 \<le> maxSize c" and "k \<noteq> []"
  shows "cacheInv (CacheManager_set now k v t c)"
proof -
  let ?c1 = "evictOldest (cleanupExpired now c)"
  have c1: "cacheInv ?c1" "int (length (memoryCache ?c1)) < maxSize c"
    using evict_makes_room [OF cacheInv_cleanup [OF assms(1)], of now] assms(2) by simp_all
  have "int (length (AList.update k e (memoryCache ?c1))) \<le> maxSize c" for e
    using c1(2) by (rule update_fits)
  moreover have "distinct (map fst (AList.update k e (memoryCache ?c1)))" for e
    using c1(1) by (simp add: cacheInv_def distinct_update)
  moreover have "[] \<notin> fst ` set (AList.update k e (memoryCache ?c1))" for e
    using c1(1) assms(3) by (simp add: cacheInv_def dom_update)
  ultimately show ?thesis
    by (simp add: cacheInv_def CacheManager_set_def Let_def)
qed

lemma cacheInv_applyOp:
  assumes "cacheInv c" and "1 \<le> maxSize c" and "keyNonEmpty (snd op)"
  shows "cacheInv (applyOp op c) \<and> maxSize (applyOp op c) = maxSize c"
proof (cases op)
  case (Pair now o')
  show ?thesis
  proof (cases o')
    case (OpSet k v t)
    then show ?thesis using assms Pair by (simp add: cacheInv_set)
  next
    case (OpDelete k)
    have "int (length (AList.delete k (memoryCache c))) \<le> int (length (memoryCache c))"
      by (simp add: length_delete_le)
    then have "int (length (AList.delete k (memoryCache c))) \<le> maxSize c"
      using assms(1) by (simp add: cacheInv_def)
    moreover have "[] \<notin> fst ` set (AList.delete k (memoryCache c))"
      using assms(1) dom_delete_subset [of k "memoryCache c"] by (auto simp: cacheInv_def)
    ultimately show ?thesis
      using assms(1) Pair OpDelete
      by (simp add: CacheManager_delete_def cacheInv_def distinct_delete)
  next
    case OpClear
    then show ?thesis using assms Pair by (simp add: CacheManager_clear_def cacheInv_def)
  qed
qed

lemma cacheInv_runOps:
  assumes "cacheInv c" and "1 \<le> maxSize c" and "list_all (\<lambda>op. keyNonEmpty (snd op)) ops"
  shows "cacheInv (runOps ops c) \<and> maxSize (runOps ops c) = maxSize c"
  using assms
proof (induction ops arbitrary: c)
  case Nil
  then show ?case by (simp add: runOps_def)
next
  case (Cons op ops)
  have step: "cacheInv (applyOp op c)" "maxSize (applyOp op c) = maxSize c"
    using cacheInv_applyOp [of c op] Cons.prems by simp_all
  have "cacheInv (runOps ops (applyOp op c)) \<and> maxSize (runOps ops (applyOp op c)) = maxSize (applyOp op c)"
    using Cons.prems step by (intro Cons.IH) simp_all
  then show ?case by (simp add: runOps_def step)
qed

lemma cacheInv_new: "0 \<le> cap \<Longrightarrow> cacheInv (CacheManager_new (Some cap) d)"
  by (simp add: cacheInv_def CacheManager_new_def)

lemma neverExpires_snoc:
  "neverExpires (xs @ [(t, k, v, l)]) =
     (neverExpires xs \<and> list_all (\<lambda>(t', k', v', l'). t - t' \<le> l') xs)"
  by (induction xs) auto

lemma insertAll_snoc:
  "insertAll (xs @ [(t, k, v, l)]) c = CacheManager_set t k v (Some l) (insertAll xs c)"
  by (simp add: insertAll_def runOps_def)

lemma maxSize_insertAll [simp]: "maxSize (insertAll xs c) = maxSize c"
  by (induction xs rule: rev_induct) (auto simp: insertAll_snoc insertAll_def runOps_def)

lemma cleanup_unexpired:
  assumes "list_all (\<lambda>(t', k', v', l'). t - t' \<le> l') xs"
  shows "filter (\<lambda>(key, entry). \<not> isExpired t entry) (map entryOf xs) = map entryOf xs"
  using assms by (induction xs) (auto simp: entryOf_def isExpired_def)

lemma entryOf_tuple [simp]: "entryOf (t, k, v, l) = (k, \<lparr> data = v, timestamp = t, ttl = l \<rparr>)"
  by (simp add: entryOf_def)

lemma fst_entryOf [simp]: "fst (entryOf x) = keyOf x"
  by (cases x) (simp add: entryOf_def keyOf_def)

lemma evict_noop: "int (length (memoryCache c)) < maxSize c \<Longrightarrow> evictOldest c = c"
  by (simp add: evictOldest_def)

lemma evict_first:
  assumes "memoryCache c = (k, e) # rest" and "maxSize c \<le> int (length (memoryCache c))"
    and "k \<noteq> []" and "k \<notin> fst ` set rest"
  shows "evictOldest c = c\<lparr> memoryCache := rest \<rparr>"
  using assms by (simp add: evictOldest_def)

text \<open>Up to the capacity, new keys with live entries are appended and nothing is evicted.\<close>

lemma insertAll_below_capacity:
  assumes "neverExpires ins" and "distinct (map keyOf ins)" and "int (length ins) \<le> cap"
  shows "memoryCache (insertAll ins (CacheManager_new (Some cap) d)) = map entryOf ins"
  using assms
proof (induction ins rule: rev_induct)
  case Nil
  then show ?case by (simp add: insertAll_def runOps_def CacheManager_new_def)
next
  case (snoc x xs)
  obtain t k v l where x: "x = (t, k, v, l)" by (cases x) auto
  let ?c = "insertAll xs (CacheManager_new (Some cap) d)"
  have live: "list_all (\<lambda>(t', k', v', l'). t - t' \<le> l') xs" and ne: "neverExpires xs"
    using snoc.prems(1) by (simp_all add: x neverExpires_snoc)
  have m: "memoryCache ?c = map entryOf xs"
    using snoc.prems ne by (intro snoc.IH) simp_all
  have cl: "cleanupExpired t ?c = ?c"
    by (simp add: cleanupExpired_def m cleanup_unexpired [OF live])
  have cap: "maxSize ?c = cap" by (simp add: CacheManager_new_def)
  have ev: "evictOldest ?c = ?c"
    using snoc.prems(3) by (intro evict_noop) (simp only: m cap, simp)
  have new: "k \<notin> fst ` set (map entryOf xs)"
    using snoc.prems(2) by (auto simp: x keyOf_def image_iff)
  have "memoryCache (insertAll (xs @ [x]) (CacheManager_new (Some cap) d))
          = AList.update k \<lparr> data = v, timestamp = t, ttl = l \<rparr> (map entryOf xs)"
    by (simp add: x insertAll_snoc CacheManager_set_def cl ev m)
  then show ?case
    by (simp add: update_new [OF new] x)
qed

lemma insertAll_over_capacity:
  assumes "1 \<le> cap" and "neverExpires ins" and "distinct (map keyOf ins)"
    and "[] \<notin> set (map keyOf ins)" and "int (length ins) = cap + 1"
  shows "memoryCache (insertAll ins (CacheManager_new (Some cap) d)) = tl (map entryOf ins)"
proof -
  obtain xs x where ins: "ins = xs @ [x]"
    using assms(1,5) by (cases ins rule: rev_cases) auto
  obtain t k v l where x: "x = (t, k, v, l)" by (cases x) auto
  let ?c = "insertAll xs (CacheManager_new (Some cap) d)"
  have len: "int (length xs) = cap" using assms(5) by (simp add: ins)
  have live: "list_all (\<lambda>(t', k', v', l'). t - t' \<le> l') xs" and ne: "neverExpires xs"
    using assms(2) by (simp_all add: ins x neverExpires_snoc)
  have m: "memoryCache ?c = map entryOf xs"
    using assms(3) ne len by (intro insertAll_below_capacity) (simp_all add: ins)
  have cl: "cleanupExpired t ?c = ?c"
    by (simp add: cleanupExpired_def m cleanup_unexpired [OF live])
  have cap: "maxSize ?c = cap" by (simp add: CacheManager_new_def)
  obtain y ys where xs: "xs = y # ys" using len assms(1) by (cases xs) auto
  have y: "keyOf y \<noteq> []" using assms(4) by (auto simp: ins xs)
  have dy: "keyOf y \<notin> fst ` set (map entryOf ys)"
    using assms(3) by (auto simp: ins xs image_iff)
  have "map entryOf xs = (keyOf y, snd (entryOf y)) # map entryOf ys"
    by (simp add: xs flip: fst_entryOf)
  then have m': "memoryCache ?c = (keyOf y, snd (entryOf y)) # map entryOf ys"
    by (simp only: m)
  have full: "maxSize ?c \<le> int (length (memoryCache ?c))"
    by (simp only: m cap length_map len)
  have ev: "evictOldest ?c = ?c\<lparr> memoryCache := map entryOf ys \<rparr>"
    using m' full y dy by (rule evict_first)
  have new: "k \<notin> fst ` set (map entryOf ys)"
    using assms(3) by (auto simp: ins xs x keyOf_def image_iff)
  have "memoryCache (insertAll ins (CacheManager_new (Some cap) d))
          = AList.update k \<lparr> data = v, timestamp = t, ttl = l \<rparr> (map entryOf ys)"
    by (simp add: ins x insertAll_snoc CacheManager_set_def cl ev)
  then show ?thesis
    by (simp add: update_new [OF new] ins xs x)
qed

text \<open>
  Claim C6. For every key \<open>k\<close>, value \<open>v\<close> and \<open>ttl > 0\<close>: \<^verbatim>\<open>set(k, v, ttl)\<close>
  followed at once by \<^verbatim>\<open>get(k)\<close> returns \<open>v\<close> and leaves the store as it is; once the
  clock has moved past the ttl, \<^verbatim>\<open>get(k)\<close> returns \<^verbatim>\<open>null\<close> and the store it leaves
  is the old one without the entry for \<open>k\<close>.
\<close>

theorem C6_set_then_get:
  assumes "0 < t"
  shows "CacheManager_get now k (CacheManager_set now k v (Some t) c)
           = (v, CacheManager_set now k v (Some t) c)
       \<and> (\<forall>later. later - now > t \<longrightarrow>
            CacheManager_get later k (CacheManager_set now k v (Some t) c)
              = (JNull, (CacheManager_set now k v (Some t) c)
                          \<lparr> memoryCache :=
                              AList.delete k (memoryCache (CacheManager_set now k v (Some t) c)) \<rparr>)
          \<and> map_of (memoryCache (snd (CacheManager_get later k
                       (CacheManager_set now k v (Some t) c)))) k = None)"
  using assms
  by (simp add: CacheManager_get_def map_of_set_same isExpired_def delete_conv')

theorem C6_set_then_get_witness:
  "(0::int) < 5
   \<and> CacheManager_get 100 ''k''
        (CacheManager_set 100 ''k'' (JNum 7) (Some 5) (CacheManager_new None None))
       = (JNum 7, CacheManager_set 100 ''k'' (JNum 7) (Some 5) (CacheManager_new None None))
   \<and> (106::int) - 100 > 5
   \<and> CacheManager_get 106 ''k''
        (CacheManager_set 100 ''k'' (JNum 7) (Some 5) (CacheManager_new None None))
       = (JNull, CacheManager_new None None)"
  using C6_set_then_get [of 5 100 "''k''" "JNum 7" "CacheManager_new None None"]
  by (simp add: CacheManager_set_def CacheManager_new_def evictOldest_def cleanupExpired_def)

text \<open>
  Claim C5, as amended. For a capacity of at least 1 and keys that are not the empty
  string: after any sequence of set, delete and clear on a new store it holds at most
  \<open>cap\<close> entries; and \<open>cap + 1\<close> insertions of distinct keys, none expiring meanwhile,
  leave the last \<open>cap\<close> of them in insertion order, the first-inserted one evicted.
\<close>

theorem C5_capacity_fifo:
  assumes "1 \<le> cap"
  shows "(list_all (\<lambda>op. keyNonEmpty (snd op)) ops \<longrightarrow>
            int (length (memoryCache (runOps ops (CacheManager_new (Some cap) d)))) \<le> cap)
       \<and> (neverExpires ins \<and> distinct (map keyOf ins) \<and> [] \<notin> set (map keyOf ins)
            \<and> int (length ins) = cap + 1 \<longrightarrow>
            memoryCache (insertAll ins (CacheManager_new (Some cap) d)) = tl (map entryOf ins))"
proof (intro conjI impI)
  assume ops: "list_all (\<lambda>op. keyNonEmpty (snd op)) ops"
  let ?c0 = "CacheManager_new (Some cap) d"
  have c0: "cacheInv ?c0" "1 \<le> maxSize ?c0" "maxSize ?c0 = cap"
    using assms by (simp_all add: cacheInv_def CacheManager_new_def)
  have "cacheInv (runOps ops ?c0) \<and> maxSize (runOps ops ?c0) = maxSize ?c0"
    using c0(1,2) ops by (rule cacheInv_runOps)
  then show "int (length (memoryCache (runOps ops ?c0))) \<le> cap"
    by (simp add: cacheInv_def c0(3))
next
  assume "neverExpires ins \<and> distinct (map keyOf ins) \<and> [] \<notin> set (map keyOf ins)
            \<and> int (length ins) = cap + 1"
  then show "memoryCache (insertAll ins (CacheManager_new (Some cap) d)) = tl (map entryOf ins)"
    using assms by (intro insertAll_over_capacity) simp_all
qed

theorem C5_capacity_fifo_witness:
  "(1::int) \<le> 2
   \<and> list_all (\<lambda>op. keyNonEmpty (snd op))
        [(0, OpSet ''a'' (JNum 1) None), (1, OpSet ''b'' (JNum 2) None), (2, OpDelete ''a''),
         (3, OpSet ''c'' (JNum 3) None), (4, OpSet ''d'' (JNum 4) None)]
   \<and> int (length (memoryCache (runOps
        [(0, OpSet ''a'' (JNum 1) None), (1, OpSet ''b'' (JNum 2) None), (2, OpDelete ''a''),
         (3, OpSet ''c'' (JNum 3) None), (4, OpSet ''d'' (JNum 4) None)]
        (CacheManager_new (Some 2) None)))) \<le> 2
   \<and> neverExpires [(0, ''a'', JNum 1, 100), (1, ''b'', JNum 2, 100), (2, ''c'', JNum 3, 100)]
   \<and> map fst (memoryCache (insertAll
        [(0, ''a'', JNum 1, 100), (1, ''b'', JNum 2, 100), (2, ''c'', JNum 3, 100)]
        (CacheManager_new (Some 2) None))) = [''b'', ''c'']"
  using C5_capacity_fifo [of 2
        "[(0, OpSet ''a'' (JNum 1) None), (1, OpSet ''b'' (JNum 2) None), (2, OpDelete ''a''),
          (3, OpSet ''c'' (JNum 3) None), (4, OpSet ''d'' (JNum 4) None)]"
        None
        "[(0, ''a'', JNum 1, 100), (1, ''b'', JNum 2, 100), (2, ''c'', JNum 3, 100)]"]
  by (simp add: keyOf_def)

text \<open>
  Claim C5 as stated fails for a capacity of 0: \<^verbatim>\<open>keys().next().value\<close> of the empty
  map is \<^verbatim>\<open>undefined\<close>, the guard \<^verbatim>\<open>if (firstKey)\<close> skips the eviction, and the
  one insertion leaves one entry.
\<close>

theorem C5_capacity_zero_counterexample:
  "\<not> int (length (memoryCache
        (CacheManager_set 0 ''a'' (JNum 1) None (CacheManager_new (Some 0) None)))) \<le> 0"
  by (simp add: CacheManager_set_def CacheManager_new_def evictOldest_def cleanupExpired_def)

text \<open>
  The same guard takes the empty string for no key: with \<^verbatim>\<open>""\<close> as the oldest key
  nothing is evicted, and a store of capacity 1 holds two entries.
\<close>

lemma empty_key_is_never_evicted:
  "map fst (memoryCache
     (CacheManager_set 1 ''a'' (JNum 2) None
        (CacheManager_set 0 [] (JNum 1) None (CacheManager_new (Some 1) None)))) = [] # [''a'']"
  by (simp add: CacheManager_set_def CacheManager_new_def evictOldest_def cleanupExpired_def isExpired_def)

section \<open>The coordinator: invalidation and the fallback on a failed fetch\<close>

lemma fold_delete:
  "fold (\<lambda>key c. snd (CacheManager_delete key c)) ks c
     = c\<lparr> memoryCache := filter (\<lambda>(k, e). k \<notin> set ks) (memoryCache c) \<rparr>"
proof (induction ks arbitrary: c)
  case Nil
  then show ?case by simp
next
  case (Cons k ks)
  let ?f = "\<lambda>key c. snd (CacheManager_delete key c)"
  let ?c = "snd (CacheManager_delete k c)"
  have eq: "filter (\<lambda>(k', e). k' \<notin> set ks) (AList.delete k (memoryCache c))
          = filter (\<lambda>(k', e). k' \<notin> set (k # ks)) (memoryCache c)"
    by (auto simp: AList.delete_eq intro: filter_cong)
  have "fold ?f (k # ks) c = fold ?f ks ?c" by simp
  also have "\<dots> = ?c\<lparr> memoryCache := filter (\<lambda>(k, e). k \<notin> set ks) (memoryCache ?c) \<rparr>"
    by (rule Cons.IH)
  also have "\<dots> = c\<lparr> memoryCache := filter (\<lambda>(k', e). k' \<notin> set (k # ks)) (memoryCache c) \<rparr>"
    using eq by (simp add: CacheManager_delete_def)
  finally show ?case .
qed

text \<open>What \<^verbatim>\<open>invalidate\<close> leaves: the entries that are neither expired nor selected.\<close>

lemma invalidate_filter:
  assumes "type \<noteq> All"
  shows "memoryCache (cache (invalidate now type n))
           = filter (\<lambda>(k, e). \<not> isExpired now e \<and> \<not> keyMatches type k) (memoryCache (cache n))"
proof -
  let ?live = "filter (\<lambda>(key, entry). \<not> isExpired now entry) (memoryCache (cache n))"
  have "filter (\<lambda>(k, e). k \<notin> set (filter (keyMatches type) (map fst ?live))) ?live
          = filter (\<lambda>(k, e). \<not> keyMatches type k) ?live"
    by (rule filter_cong) (auto simp: image_iff)
  also have "\<dots> = filter (\<lambda>(k, e). \<not> isExpired now e \<and> \<not> keyMatches type k)
                      (memoryCache (cache n))"
    by (auto intro: filter_cong)
  finally show ?thesis
    using assms
    by (simp add: invalidate_def CacheManager_keys_def cleanupExpired_def fold_delete Let_def)
qed

lemma keyMatches_simps:
  "keyMatches Groups k = str_includes k ''group''"
  "keyMatches Sites k = str_includes k ''site''"
  "keyMatches Configs k = str_includes k ''config''"
  by (simp_all add: keyMatches_def)

lemma demoCache_entries:
  "memoryCache (cache demoCache) =
     [(''groupsWithSites'', \<lparr> data = JArr [JStr ''g''], timestamp = 0, ttl = 600000 \<rparr>),
      (''sites_group_7'', \<lparr> data = JArr [], timestamp = 1, ttl = 600000 \<rparr>),
      (''configs'', \<lparr> data = JObj [], timestamp = 2, ttl = 600000 \<rparr>)]"
  by code_simp

text \<open>
  Claim C10, as amended. \<^verbatim>\<open>invalidate\<close> selects keys by case-sensitive substring:
  \<^verbatim>\<open>invalidate("groups")\<close> removes every key that contains \<^verbatim>\<open>group\<close>, the keys
  \<^verbatim>\<open>sites_group_<id>\<close> among them; \<^verbatim>\<open>invalidate("sites")\<close> removes the keys that
  contain \<^verbatim>\<open>site\<close> and so keeps an unexpired \<^verbatim>\<open>groupsWithSites\<close>; an entry that is not
  expired and whose key is not selected stays as it is. Expired entries go whatever
  their key, in the sweep that \<^verbatim>\<open>keys()\<close> starts with.
\<close>

theorem C10_invalidate_scope:
  "memoryCache (cache (invalidate now Groups n))
     = filter (\<lambda>(k, e). \<not> isExpired now e \<and> \<not> str_includes k ''group'')
         (memoryCache (cache n))
   \<and> memoryCache (cache (invalidate now Sites n))
     = filter (\<lambda>(k, e). \<not> isExpired now e \<and> \<not> str_includes k ''site'')
         (memoryCache (cache n))
   \<and> str_includes (''sites_group_'' @ showInt g) ''group''
   \<and> str_includes ''groupsWithSites'' ''group''
   \<and> \<not> str_includes ''groupsWithSites'' ''site''
   \<and> ((''groupsWithSites'', e) \<in> set (memoryCache (cache n)) \<and> \<not> isExpired now e \<longrightarrow>
        (''groupsWithSites'', e) \<in> set (memoryCache (cache (invalidate now Sites n))))
   \<and> (type \<noteq> All \<and> (k, e') \<in> set (memoryCache (cache n)) \<and> \<not> isExpired now e'
        \<and> \<not> keyMatches type k \<longrightarrow>
        (k, e') \<in> set (memoryCache (cache (invalidate now type n))))"
  by (simp add: invalidate_filter keyMatches_simps)

theorem C10_invalidate_scope_witness:
  "map fst (memoryCache (cache (invalidate 3 Groups demoCache))) = [''configs'']
   \<and> map fst (memoryCache (cache (invalidate 3 Sites demoCache))) = [''groupsWithSites'', ''configs'']
   \<and> (''groupsWithSites'', \<lparr> data = JArr [JStr ''g''], timestamp = 0, ttl = 600000 \<rparr>)
       \<in> set (memoryCache (cache demoCache))
   \<and> \<not> isExpired 3 \<lparr> data = JArr [JStr ''g''], timestamp = 0, ttl = 600000 \<rparr>
   \<and> (''groupsWithSites'', \<lparr> data = JArr [JStr ''g''], timestamp = 0, ttl = 600000 \<rparr>)
       \<in> set (memoryCache (cache (invalidate 3 Sites demoCache)))
   \<and> Groups \<noteq> All
   \<and> (''configs'', \<lparr> data = JObj [], timestamp = 2, ttl = 600000 \<rparr>)
       \<in> set (memoryCache (cache demoCache))
   \<and> \<not> isExpired 3 \<lparr> data = JObj [], timestamp = 2, ttl = 600000 \<rparr>
   \<and> \<not> keyMatches Groups ''configs''
   \<and> (''configs'', \<lparr> data = JObj [], timestamp = 2, ttl = 600000 \<rparr>)
       \<in> set (memoryCache (cache (invalidate 3 Groups demoCache)))"
  using C10_invalidate_scope [of 3 demoCache 7
          "\<lparr> data = JArr [JStr ''g''], timestamp = 0, ttl = 600000 \<rparr>"
          Groups "''configs''" "\<lparr> data = JObj [], timestamp = 2, ttl = 600000 \<rparr>"]
  by (simp add: demoCache_entries isExpired_def keyMatches_simps)

text \<open>
  Claim C10 as stated fails where it says that keys outside the selection are never
  touched: after eleven minutes \<^verbatim>\<open>invalidate("sites")\<close> removes the expired entry of
  \<^verbatim>\<open>configs\<close>, whose key does not contain \<^verbatim>\<open>site\<close>.
\<close>

theorem C10_expired_entry_counterexample:
  "\<not> str_includes ''configs'' ''site''
   \<and> map_of (memoryCache (cache demoCache)) ''configs''
       = Some \<lparr> data = JObj [], timestamp = 2, ttl = 600000 \<rparr>
   \<and> map_of (memoryCache (cache (invalidate 700000 Sites demoCache))) ''configs'' = None"
  by (simp add: invalidate_filter demoCache_entries isExpired_def keyMatches_simps)

text \<open>An entry that has expired at the first lookup has expired when the fetch fails.\<close>

lemma isExpired_mono: "isExpired now e \<Longrightarrow> now \<le> later \<Longrightarrow> isExpired later e"
  by (simp add: isExpired_def)

lemma get_expired:
  "map_of (memoryCache c) k = Some e \<Longrightarrow> isExpired now e \<Longrightarrow>
   CacheManager_get now k c = (JNull, c\<lparr> memoryCache := AList.delete k (memoryCache c) \<rparr>)"
  by (simp add: CacheManager_get_def)

lemma get_absent:
  "map_of (memoryCache c) k = None \<Longrightarrow> CacheManager_get now k c = (JNull, c)"
  by (simp add: CacheManager_get_def)

lemma get_fresh:
  "map_of (memoryCache c) k = Some e \<Longrightarrow> \<not> isExpired now e \<Longrightarrow>
   CacheManager_get now k c = (data e, c)"
  by (simp add: CacheManager_get_def)

text \<open>What a read-through call does when the fetch function throws, case by case.\<close>

lemma readThrough_fetch_failed:
  "readThrough k now later (Inl err) forceRefresh n =
     (case map_of (memoryCache (cache n)) k of
        None \<Rightarrow> (Inl err, n\<lparr> misses := misses n + 1 \<rparr>)
      | Some e \<Rightarrow>
          if \<not> forceRefresh \<and> \<not> isExpired now e \<and> truthy (data e)
          then (Inr (data e), n\<lparr> hits := hits n + 1 \<rparr>)
          else if forceRefresh \<and> \<not> isExpired later e \<and> truthy (data e)
          then (Inr (data e), n\<lparr> misses := misses n + 1 \<rparr>)
          else if isExpired later e \<or> (\<not> forceRefresh \<and> isExpired now e)
          then (Inl err,
                n\<lparr> cache := (cache n)\<lparr> memoryCache := AList.delete k (memoryCache (cache n)) \<rparr>,
                   misses := misses n + 1 \<rparr>)
          else (Inl err, n\<lparr> misses := misses n + 1 \<rparr>))"
proof (cases "map_of (memoryCache (cache n)) k")
  case None
  then show ?thesis by (simp add: readThrough_def get_absent)
next
  case (Some e)
  have gone: "map_of (AList.delete k (memoryCache (cache n))) k = None"
    by (simp add: delete_conv')
  show ?thesis
  proof (cases forceRefresh)
    case True
    then show ?thesis
      using Some by (cases "isExpired later e") (simp_all add: readThrough_def get_expired get_fresh)
  next
    case False
    show ?thesis
    proof (cases "isExpired now e")
      case True
      then show ?thesis
        using Some False gone by (simp add: readThrough_def get_expired get_absent)
    next
      case fresh: False
      then show ?thesis
        using Some False
        by (cases "isExpired later e") (simp_all add: readThrough_def get_expired get_fresh)
    qed
  qed
qed


lemma readThrough_expired_deleted:
  "map_of (memoryCache (cache n)) k = Some e \<and> isExpired later e
     \<and> (forceRefresh \<or> isExpired now e \<or> \<not> truthy (data e))
   \<longrightarrow> readThrough k now later (Inl err) forceRefresh n
       = (Inl err,
          n\<lparr> cache := (cache n)\<lparr> memoryCache := AList.delete k (memoryCache (cache n)) \<rparr>,
             misses := misses n + 1 \<rparr>)"
  by (auto simp: readThrough_fetch_failed)

lemma readThrough_no_entry:
  "map_of (memoryCache (cache n)) k = None
   \<longrightarrow> readThrough k now later (Inl err) forceRefresh n
       = (Inl err, n\<lparr> misses := misses n + 1 \<rparr>)"
  by (simp add: readThrough_fetch_failed)

lemma readThrough_fallback:
  "map_of (memoryCache (cache n)) k = Some e \<and> \<not> isExpired later e \<and> truthy (data e)
   \<longrightarrow> readThrough k now later (Inl err) True n
       = (Inr (data e), n\<lparr> misses := misses n + 1 \<rparr>)"
  by (simp add: readThrough_fetch_failed)

lemma readThrough_served_only_fresh:
  "fst (readThrough k now later (Inl err) forceRefresh n) = Inr v
   \<longrightarrow> (case map_of (memoryCache (cache n)) k of
          None \<Rightarrow> False
        | Some e' \<Rightarrow> v = data e' \<and> truthy (data e')
                     \<and> (if forceRefresh then \<not> isExpired later e' else \<not> isExpired now e'))"
  by (auto simp: readThrough_fetch_failed split: option.splits if_splits)

text \<open>
  Claim C1, as amended. When the fetch function throws, the read-through operations
  return a cached value only if the refresh was forced and the entry is within its ttl
  (and truthy) once the fetch has failed; without a forced refresh a value is returned
  only as a cache hit, before any fetch. Whenever the fetch is tried and the entry has
  expired by the time it fails, \<^verbatim>\<open>cache.get\<close> deletes the entry and the fetch error is
  thrown; the error is thrown as well when the store has no entry for the key. The
  coordinator the call leaves is given with each result.
\<close>

theorem C1_expired_entry_not_served:
  "(map_of (memoryCache (cache n)) ''groupsWithSites'' = Some e \<and> isExpired later e
      \<and> (forceRefresh \<or> isExpired now e \<or> \<not> truthy (data e))
      \<longrightarrow> getGroupsWithSites now later (Inl err) forceRefresh n
          = (Inl err,
             n\<lparr> cache := (cache n)\<lparr> memoryCache :=
                                      AList.delete ''groupsWithSites'' (memoryCache (cache n)) \<rparr>,
                misses := misses n + 1 \<rparr>))
   \<and> (map_of (memoryCache (cache n)) (sitesCacheKey groupId) = Some e \<and> isExpired later e
      \<and> (forceRefresh \<or> isExpired now e \<or> \<not> truthy (data e))
      \<longrightarrow> getSites now later (Inl err) groupId forceRefresh n
          = (Inl err,
             n\<lparr> cache := (cache n)\<lparr> memoryCache :=
                                      AList.delete (sitesCacheKey groupId) (memoryCache (cache n)) \<rparr>,
                misses := misses n + 1 \<rparr>))
   \<and> (map_of (memoryCache (cache n)) ''configs'' = Some e \<and> isExpired later e
      \<and> (forceRefresh \<or> isExpired now e \<or> \<not> truthy (data e))
      \<longrightarrow> getConfigs now later (Inl err) forceRefresh n
          = (Inl err,
             n\<lparr> cache := (cache n)\<lparr> memoryCache :=
                                      AList.delete ''configs'' (memoryCache (cache n)) \<rparr>,
                misses := misses n + 1 \<rparr>))
   \<and> (map_of (memoryCache (cache n)) ''groupsWithSites'' = None
      \<longrightarrow> getGroupsWithSites now later (Inl err) forceRefresh n = (Inl err, n\<lparr> misses := misses n + 1 \<rparr>))
   \<and> (map_of (memoryCache (cache n)) (sitesCacheKey groupId) = None
      \<longrightarrow> getSites now later (Inl err) groupId forceRefresh n = (Inl err, n\<lparr> misses := misses n + 1 \<rparr>))
   \<and> (map_of (memoryCache (cache n)) ''configs'' = None
      \<longrightarrow> getConfigs now later (Inl err) forceRefresh n = (Inl err, n\<lparr> misses := misses n + 1 \<rparr>))
   \<and> (map_of (memoryCache (cache n)) ''groupsWithSites'' = Some e \<and> \<not> isExpired later e
        \<and> truthy (data e)
      \<longrightarrow> getGroupsWithSites now later (Inl err) True n = (Inr (data e), n\<lparr> misses := misses n + 1 \<rparr>))
   \<and> (map_of (memoryCache (cache n)) (sitesCacheKey groupId) = Some e \<and> \<not> isExpired later e
        \<and> truthy (data e)
      \<longrightarrow> getSites now later (Inl err) groupId True n = (Inr (data e), n\<lparr> misses := misses n + 1 \<rparr>))
   \<and> (map_of (memoryCache (cache n)) ''configs'' = Some e \<and> \<not> isExpired later e
        \<and> truthy (data e)
      \<longrightarrow> getConfigs now later (Inl err) True n = (Inr (data e), n\<lparr> misses := misses n + 1 \<rparr>))
   \<and> (fst (getGroupsWithSites now later (Inl err) forceRefresh n) = Inr v
      \<longrightarrow> (case map_of (memoryCache (cache n)) ''groupsWithSites'' of
             None \<Rightarrow> False
           | Some e' \<Rightarrow> v = data e' \<and> truthy (data e')
                        \<and> (if forceRefresh then \<not> isExpired later e' else \<not> isExpired now e')))
   \<and> (fst (getSites now later (Inl err) groupId forceRefresh n) = Inr v
      \<longrightarrow> (case map_of (memoryCache (cache n)) (sitesCacheKey groupId) of
             None \<Rightarrow> False
           | Some e' \<Rightarrow> v = data e' \<and> truthy (data e')
                        \<and> (if forceRefresh then \<not> isExpired later e' else \<not> isExpired now e')))
   \<and> (fst (getConfigs now later (Inl err) forceRefresh n) = Inr v
      \<longrightarrow> (case map_of (memoryCache (cache n)) ''configs'' of
             None \<Rightarrow> False
           | Some e' \<Rightarrow> v = data e' \<and> truthy (data e')
                        \<and> (if forceRefresh then \<not> isExpired later e' else \<not> isExpired now e')))"
  unfolding getGroupsWithSites_def getSites_def getConfigs_def
  by (intro conjI readThrough_expired_deleted readThrough_no_entry readThrough_fallback
        readThrough_served_only_fresh)

theorem C1_expired_entry_not_served_witness:
  "map_of (memoryCache (cache demoCache)) ''groupsWithSites''
     = Some \<lparr> data = JArr [JStr ''g''], timestamp = 0, ttl = 600000 \<rparr>
   \<and> \<not> isExpired 599999 \<lparr> data = JArr [JStr ''g''], timestamp = 0, ttl = 600000 \<rparr>
   \<and> isExpired 700000 \<lparr> data = JArr [JStr ''g''], timestamp = 0, ttl = 600000 \<rparr>
   \<and> fst (getGroupsWithSites 599999 700000 (Inl (FetchError ''offline'')) True demoCache)
       = Inl (FetchError ''offline'')
   \<and> map fst (memoryCache (cache (snd
         (getGroupsWithSites 599999 700000 (Inl (FetchError ''offline'')) True demoCache))))
       = [''sites_group_7'', ''configs'']
   \<and> map_of (memoryCache (cache demoCache)) (sitesCacheKey None) = None
   \<and> fst (getSites 5 6 (Inl (FetchError ''offline'')) None True demoCache)
       = Inl (FetchError ''offline'')
   \<and> \<not> isExpired 6 \<lparr> data = JArr [JStr ''g''], timestamp = 0, ttl = 600000 \<rparr>
   \<and> truthy (data \<lparr> data = JArr [JStr ''g''], timestamp = 0, ttl = 600000 \<rparr>)
   \<and> getGroupsWithSites 5 6 (Inl (FetchError ''offline'')) True demoCache
       = (Inr (JArr [JStr ''g'']), demoCache\<lparr> misses := misses demoCache + 1 \<rparr>)"
  using C1_expired_entry_not_served [where n = demoCache
               and e = "\<lparr> data = JArr [JStr ''g''], timestamp = 0, ttl = 600000 \<rparr>"
               and now = 599999 and later = 700000 and forceRefresh = True
               and err = "FetchError ''offline''" and groupId = None
               and v = "JArr [JStr ''g'']"]
        C1_expired_entry_not_served [where n = demoCache
               and e = "\<lparr> data = JArr [JStr ''g''], timestamp = 0, ttl = 600000 \<rparr>"
               and now = 5 and later = 6 and forceRefresh = True
               and err = "FetchError ''offline''" and groupId = None
               and v = "JArr [JStr ''g'']"]
  by (simp add: demoCache_entries isExpired_def sitesCacheKey_def)

text \<open>
  Claim C1 as stated fails: the store holds a value for \<^verbatim>\<open>groupsWithSites\<close>, its ttl of
  ten minutes has expired, the fetch function throws, and the caller gets the error,
  not the cached value.
\<close>

theorem C1_stale_fallback_counterexample:
  "map_of (memoryCache (cache demoCache)) ''groupsWithSites''
     = Some \<lparr> data = JArr [JStr ''g''], timestamp = 0, ttl = 600000 \<rparr>
   \<and> isExpired 700000 \<lparr> data = JArr [JStr ''g''], timestamp = 0, ttl = 600000 \<rparr>
   \<and> fst (getGroupsWithSites 700000 700000 (Inl (FetchError ''offline'')) False demoCache)
       = Inl (FetchError ''offline'')
   \<and> fst (getGroupsWithSites 700000 700000 (Inl (FetchError ''offline'')) True demoCache)
       = Inl (FetchError ''offline'')"
  by (simp add: demoCache_entries isExpired_def getGroupsWithSites_def readThrough_def
        CacheManager_get_def)

section \<open>The search engine: sorting, history and null collections\<close>

lemma length_insertBy [simp]: "length (insertBy cmp x ys) = Suc (length ys)"
  by (induction ys) auto

lemma length_js_sort [simp]: "length (js_sort cmp xs) = length xs"
  by (induction xs) (auto simp: js_sort_def)

lemma set_insertBy [simp]: "set (insertBy cmp x ys) = insert x (set ys)"
  by (induction ys) auto

lemma set_js_sort [simp]: "set (js_sort cmp xs) = set xs"
  by (induction xs) (auto simp: js_sort_def)

lemma recordSearch_history:
  "searchHistory (recordSearch now q cnt e)
     = take (maxHistoryItems e)
         (\<lparr> h_query = q, h_timestamp = now, resultsCount = cnt, selectedId = None \<rparr>
          # searchHistory e)"
  by (simp add: recordSearch_def Let_def)

lemma recordSearch_max [simp]: "maxHistoryItems (recordSearch now q cnt e) = maxHistoryItems e"
  by (simp add: recordSearch_def Let_def)

lemma search_nonblank:
  assumes "trim q \<noteq> []"
  shows "search now q (Some gs) (Some ss) e =
           (let tq = toLowerCase (trim q);
                allResults = mergeAndDeduplicate (performBasicSearch tq gs ss)
                               (performSmartSearch tq gs ss) (Some (performSemanticSearch tq gs ss))
            in Inr (sortByRelevance allResults tq, recordSearch now q (length allResults) e))"
proof -
  have "q \<noteq> []" using assms by (auto simp: trim_def)
  then show ?thesis using assms by (simp add: search_def Let_def)
qed

text \<open>
  Claim C7. Recording a search leaves at most \<open>maxHistoryItems\<close> entries (100 in an
  engine as constructed): the new entry goes to the front and the list is cut to its
  first \<open>maxHistoryItems\<close> entries, so the oldest are the ones dropped. Every search
  with a query that is not blank records one entry and leaves the history within the
  bound. With a capacity of 2, the queries a, b, c leave the entries for c and b.
\<close>

theorem C7_history_bounded:
  "length (searchHistory (recordSearch now q cnt e)) \<le> maxHistoryItems e
   \<and> searchHistory (recordSearch now q cnt e)
       = take (maxHistoryItems e)
           (\<lparr> h_query = q, h_timestamp = now, resultsCount = cnt, selectedId = None \<rparr>
            # searchHistory e)
   \<and> (trim q \<noteq> [] \<and> search now q (Some gs) (Some ss) e = Inr (rs, e') \<longrightarrow>
        length (searchHistory e') \<le> maxHistoryItems e'
        \<and> searchHistory e'
            = take (maxHistoryItems e)
                (\<lparr> h_query = q, h_timestamp = now, resultsCount = length rs, selectedId = None \<rparr>
                 # searchHistory e))
   \<and> maxHistoryItems (SmartSearchEngine_new loaded) = 100
   \<and> map h_query (searchHistory
         (recordSearch 3 ''c'' 0 (recordSearch 2 ''b'' 0 (recordSearch 1 ''a'' 0 (emptyEngine 2)))))
       = [''c'', ''b'']"
proof -
  have scenario: "map h_query (searchHistory
         (recordSearch 3 ''c'' 0 (recordSearch 2 ''b'' 0 (recordSearch 1 ''a'' 0 (emptyEngine 2)))))
       = [''c'', ''b'']"
    by (simp add: recordSearch_history emptyEngine_def)
  have srch: "length (searchHistory e') \<le> maxHistoryItems e'
        \<and> searchHistory e'
            = take (maxHistoryItems e)
                (\<lparr> h_query = q, h_timestamp = now, resultsCount = length rs, selectedId = None \<rparr>
                 # searchHistory e)"
    if "trim q \<noteq> []" and "search now q (Some gs) (Some ss) e = Inr (rs, e')"
    using that(2) unfolding search_nonblank [OF that(1)]
    by (auto simp: Let_def sortByRelevance_def recordSearch_history)
  have bound: "length (searchHistory (recordSearch now q cnt e)) \<le> maxHistoryItems e"
    by (simp add: recordSearch_history)
  have new: "maxHistoryItems (SmartSearchEngine_new loaded) = 100"
    by (simp add: SmartSearchEngine_new_def)
  from bound recordSearch_history [of now q cnt e] srch new scenario show ?thesis
    by blast
qed

theorem C7_history_bounded_witness:
  "trim ''git'' \<noteq> []
   \<and> search 5 ''git'' (Some []) (Some [github]) (emptyEngine 0)
       = Inr ([siteResult github [''name'', ''url''] None], emptyEngine 0)
   \<and> length (searchHistory (emptyEngine 0)) \<le> maxHistoryItems (emptyEngine 0)
   \<and> search 5 ''git'' (Some []) (Some [github]) (emptyEngine 2)
       = Inr ([siteResult github [''name'', ''url''] None],
              \<lparr> searchHistory = [\<lparr> h_query = ''git'', h_timestamp = 5, resultsCount = 1,
                                    selectedId = None \<rparr>],
                maxHistoryItems = 2 \<rparr>)"
  using C7_history_bounded [of 5 "''git''" 0 "emptyEngine 0" "[]" "[github]"
          "[siteResult github [''name'', ''url''] None]" "emptyEngine 0" "[]"]
  by code_simp

lemma trim_Nil [simp]: "trim [] = []"
  by (simp add: trim_def)

lemma search_blank:
  assumes "trim q = []"
  shows "search now q groups (Some ss) e = Inr (getPopularRecommendations ss, e)"
  using assms by (simp add: search_def)

lemma search_null_sites: "search now q groups None e = Inl TypeError"
  by (simp add: search_def Let_def)

lemma search_null_groups:
  assumes "trim q \<noteq> []"
  shows "search now q None sites e = Inl TypeError"
proof -
  have "q \<noteq> []" using assms by auto
  then show ?thesis using assms by (simp add: search_def Let_def split: option.splits)
qed

lemma js_sort_Nil [simp]: "js_sort cmp [] = []"
  by (simp add: js_sort_def)

lemma search_empty_collections: "\<exists>e'. search now q (Some []) (Some []) e = Inr ([], e')"
proof (cases "trim q = []")
  case True
  then show ?thesis by (simp add: search_blank getPopularRecommendations_def)
next
  case False
  then show ?thesis
    by (simp add: search_nonblank Let_def performBasicSearch_def performSmartSearch_def
          performSemanticSearch_def mergeAndDeduplicate_def addUnseen_def sortByRelevance_def)
qed

text \<open>
  Claim C8, as amended. \<^verbatim>\<open>search\<close> never raises when both collections are arrays:
  it returns a result list, the empty one for empty collections. A \<^verbatim>\<open>sites\<close> argument
  that is \<^verbatim>\<open>null\<close> raises a \<^verbatim>\<open>TypeError\<close> for every query; a \<^verbatim>\<open>groups\<close> argument that
  is \<^verbatim>\<open>null\<close> raises it for every query that is not blank, and is not read for a blank
  one.
\<close>

theorem C8_search_total_on_arrays:
  "(\<exists>rs e'. search now q (Some gs) (Some ss) e = Inr (rs, e'))
   \<and> (\<exists>e'. search now q (Some []) (Some []) e = Inr ([], e'))
   \<and> search now q groups None e = Inl TypeError
   \<and> (trim q \<noteq> [] \<longrightarrow> search now q None sites e = Inl TypeError)
   \<and> (trim q = [] \<longrightarrow> search now q None (Some ss) e = Inr (getPopularRecommendations ss, e))"
proof -
  have "\<exists>rs e'. search now q (Some gs) (Some ss) e = Inr (rs, e')"
    by (cases "trim q = []") (simp_all add: search_blank search_nonblank Let_def)
  then show ?thesis
    using search_empty_collections [of now q e]
    by (simp add: search_null_sites search_null_groups search_blank)
qed

theorem C8_search_total_on_arrays_witness:
  "trim ''git'' \<noteq> []
   \<and> search 5 ''git'' None (Some [github]) (emptyEngine 2) = Inl TypeError
   \<and> trim ''  '' = []
   \<and> search 5 ''  '' None (Some [github]) (emptyEngine 2)
       = Inr ([siteResult github [''name''] None], emptyEngine 2)"
proof -
  have t1: "trim ''git'' \<noteq> []" by code_simp
  have t2: "trim ''  '' = []" by code_simp
  have p: "getPopularRecommendations [github] = [siteResult github [''name''] None]"
    by code_simp
  from C8_search_total_on_arrays [of 5 "''git''" "[]" "[github]" "emptyEngine 2" None "Some [github]"] t1
  have r1: "search 5 ''git'' None (Some [github]) (emptyEngine 2) = Inl TypeError"
    by blast
  from C8_search_total_on_arrays [of 5 "''  ''" "[]" "[github]" "emptyEngine 2" None "Some [github]"] t2
  have "search 5 ''  '' None (Some [github]) (emptyEngine 2)
          = Inr (getPopularRecommendations [github], emptyEngine 2)"
    by blast
  then have r2: "search 5 ''  '' None (Some [github]) (emptyEngine 2)
                   = Inr ([siteResult github [''name''] None], emptyEngine 2)"
    by (simp only: p)
  from t1 r1 t2 r2 show ?thesis by blast
qed

text \<open>
  Claim C8 as stated fails: a \<^verbatim>\<open>null\<close> collection is not taken for an empty one, the
  call throws.
\<close>

theorem C8_null_collection_counterexample:
  "search 5 ''git'' (Some []) None (emptyEngine 2) = Inl TypeError
   \<and> search 5 ''git'' None (Some []) (emptyEngine 2) = Inl TypeError
   \<and> search 5 [] (Some []) None (emptyEngine 2) = Inl TypeError"
  by code_simp

text \<open>
  Claim C2 asks for both a group and a site of the same numeric id in the merged list
  when both match. \<^verbatim>\<open>seenIds\<close> holds the ids alone: for the query \<^verbatim>\<open>dev\<close> the first
  pass finds the site DevDocs and the group Dev, both with id 1, and the merged list
  holds the site only.
\<close>

theorem C2_group_with_site_id_dropped:
  "map (\<lambda>r. (r_type r, r_id r)) (performBasicSearch ''dev'' [devGroup] [devDocs])
     = [(TSite, 1), (TGroup, 1)]
   \<and> search 5 ''dev'' (Some [devGroup]) (Some [devDocs]) (emptyEngine 2)
       = Inr ([siteResult devDocs [''name'', ''url''] None],
              \<lparr> searchHistory = [\<lparr> h_query = ''dev'', h_timestamp = 5, resultsCount = 1,
                                    selectedId = None \<rparr>],
                maxHistoryItems = 2 \<rparr>)"
  by code_simp

section \<open>The search engine: merging, ranking and the semantic pass\<close>

subsection \<open>Merging\<close>

lemma addUnseen_keepUnseen:
  "addUnseen items (seen, results)
     = (seen \<union> r_id ` set items, results @ keepUnseen seen items)"
proof (induction items arbitrary: seen results)
  case Nil
  then show ?case by (simp add: addUnseen_def)
next
  case (Cons x xs)
  have step: "addUnseen (x # xs) (seen, results)
                = addUnseen xs (if r_id x \<notin> seen then (insert (r_id x) seen, results @ [x])
                                else (seen, results))"
    by (simp add: addUnseen_def)
  show ?case
    by (cases "r_id x \<in> seen") (auto simp: step Cons.IH)
qed

lemma keepUnseen_append:
  "keepUnseen seen (xs @ ys) = keepUnseen seen xs @ keepUnseen (seen \<union> r_id ` set xs) ys"
proof (induction xs arbitrary: seen)
  case Nil
  then show ?case by simp
next
  case (Cons x xs)
  have "insert (r_id x) seen \<union> r_id ` set xs = seen \<union> r_id ` set (x # xs)" by auto
  moreover have "r_id x \<in> seen \<Longrightarrow> seen \<union> r_id ` set xs = seen \<union> r_id ` set (x # xs)" by auto
  ultimately show ?case by (simp add: Cons.IH)
qed

lemma keepUnseen_subset: "set (keepUnseen seen xs) \<subseteq> set xs"
  by (induction xs arbitrary: seen) auto

lemma keepUnseen_fresh: "x \<in> set (keepUnseen seen xs) \<Longrightarrow> r_id x \<notin> seen"
  by (induction xs arbitrary: seen) (auto split: if_splits)

lemma keepUnseen_distinct: "distinct (map r_id (keepUnseen seen xs))"
proof (induction xs arbitrary: seen)
  case Nil
  then show ?case by simp
next
  case (Cons x xs)
  have "r_id y \<noteq> r_id x" if "y \<in> set (keepUnseen (insert (r_id x) seen) xs)" for y
    using keepUnseen_fresh [OF that] by simp
  then have "r_id x \<notin> r_id ` set (keepUnseen (insert (r_id x) seen) xs)"
    by force
  then show ?case by (simp add: Cons.IH)
qed

lemma keepUnseen_id:
  "distinct (map r_id xs) \<Longrightarrow> r_id ` set xs \<inter> seen = {} \<Longrightarrow> keepUnseen seen xs = xs"
proof (induction xs arbitrary: seen)
  case Nil
  then show ?case by simp
next
  case (Cons x xs)
  have "r_id ` set xs \<inter> insert (r_id x) seen = {}"
    using Cons.prems by auto
  then have "keepUnseen (insert (r_id x) seen) xs = xs"
    using Cons.prems by (intro Cons.IH) simp_all
  then show ?case using Cons.prems by simp
qed

text \<open>The merged list before sorting: the first occurrence of every id in the three
  passes, taken in the order basic, smart, semantic.\<close>

lemma mergeAndDeduplicate_keepUnseen:
  "mergeAndDeduplicate basic smart (Some semantic)
     = js_sort compareTypeThenFields (keepUnseen {} (basic @ smart @ semantic))"
  by (simp add: mergeAndDeduplicate_def addUnseen_keepUnseen keepUnseen_append Let_def Un_assoc)

lemma set_mergeAndDeduplicate:
  "set (mergeAndDeduplicate basic smart (Some semantic))
     = set (keepUnseen {} (basic @ smart @ semantic))"
  by (simp add: mergeAndDeduplicate_keepUnseen)

text \<open>First seen wins: a merged entry whose id occurs in the first pass is the entry of
  the first pass.\<close>

lemma merged_entry_from_basic:
  assumes "r \<in> set (mergeAndDeduplicate basic smart (Some semantic))"
    and "r_id r \<in> r_id ` set basic"
  shows "r \<in> set basic"
proof -
  have "r \<in> set (keepUnseen {} basic) \<or> r \<in> set (keepUnseen ({} \<union> r_id ` set basic) (smart @ semantic))"
    using assms(1) by (simp add: set_mergeAndDeduplicate keepUnseen_append [of "{}" basic])
  then show ?thesis
  proof
    assume "r \<in> set (keepUnseen {} basic)"
    then show ?thesis using keepUnseen_subset by blast
  next
    assume "r \<in> set (keepUnseen ({} \<union> r_id ` set basic) (smart @ semantic))"
    then have "r_id r \<notin> {} \<union> r_id ` set basic" by (rule keepUnseen_fresh)
    then show ?thesis using assms(2) by simp
  qed
qed

lemma basic_no_score: "r \<in> set (performBasicSearch q gs ss) \<Longrightarrow> semanticScore r = None"
  by (auto simp: performBasicSearch_def siteResult_def groupResult_def)

subsection \<open>Sorting\<close>

lemma sorted_insertBy:
  assumes le: "\<And>y. cmp x y \<le> 0 \<Longrightarrow> key y \<le> key x"
    and gt: "\<And>y. \<not> cmp x y \<le> 0 \<Longrightarrow> key x \<le> key y"
    and "sorted_wrt (\<lambda>a b. key b \<le> (key a :: int)) ys"
  shows "sorted_wrt (\<lambda>a b. key b \<le> key a) (insertBy cmp x ys)"
  using assms(3)
proof (induction ys)
  case Nil
  then show ?case by simp
next
  case (Cons y ys)
  show ?case
  proof (cases "cmp x y \<le> 0")
    case True
    then have "key y \<le> key x" by (rule le)
    then show ?thesis using True Cons.prems by (auto intro: order_trans)
  next
    case False
    then have "key x \<le> key y" by (rule gt)
    then show ?thesis using False Cons by auto
  qed
qed

lemma sorted_js_sort:
  assumes "\<And>x y. cmp x y \<le> 0 \<Longrightarrow> key y \<le> key x"
    and "\<And>x y. \<not> cmp x y \<le> 0 \<Longrightarrow> key x \<le> key y"
  shows "sorted_wrt (\<lambda>a b. key b \<le> (key a :: int)) (js_sort cmp xs)"
proof (induction xs)
  case Nil
  then show ?case by (simp add: js_sort_def)
next
  case (Cons x xs)
  have "js_sort cmp (x # xs) = insertBy cmp x (js_sort cmp xs)" by (simp add: js_sort_def)
  then show ?case using assms Cons.IH by (simp add: sorted_insertBy)
qed

lemma sortByRelevance_sorted:
  "sorted_wrt (\<lambda>a b. scoreOrZero b \<le> scoreOrZero a) (sortByRelevance rs q)"
  unfolding sortByRelevance_def
  by (rule sorted_js_sort) (auto simp: compareRelevance_def split: if_splits)

lemma distinct_insertBy:
  "distinct (map f (insertBy cmp x ys)) = (f x \<notin> f ` set ys \<and> distinct (map f ys))"
  by (induction ys) auto

lemma js_sort_Cons: "js_sort cmp (x # xs) = insertBy cmp x (js_sort cmp xs)"
  by (simp add: js_sort_def)

lemma distinct_js_sort: "distinct (map f (js_sort cmp xs)) = distinct (map f xs)"
  by (induction xs) (simp_all add: js_sort_Cons distinct_insertBy)

lemma ids_keepUnseen: "r_id ` set (keepUnseen seen xs) = r_id ` set xs - seen"
proof (induction xs arbitrary: seen)
  case Nil
  then show ?case by simp
next
  case (Cons x xs)
  show ?case by (cases "r_id x \<in> seen") (auto simp: Cons.IH)
qed

lemma merged_ids_distinct: "distinct (map r_id (mergeAndDeduplicate basic smart (Some semantic)))"
  by (simp add: mergeAndDeduplicate_keepUnseen distinct_js_sort keepUnseen_distinct)

lemma merged_ids:
  "r_id ` set (mergeAndDeduplicate basic smart (Some semantic))
     = r_id ` set basic \<union> r_id ` set smart \<union> r_id ` set semantic"
  by (simp add: set_mergeAndDeduplicate ids_keepUnseen image_Un Un_assoc)

lemma smart_no_score: "r \<in> set (performSmartSearch q gs ss) \<Longrightarrow> semanticScore r = None"
  by (auto simp: performSmartSearch_def Let_def siteResult_def groupResult_def
           split: item.splits dest!: in_set_takeD)

text \<open>An entry with a semantic score was found by the semantic pass alone.\<close>

lemma merged_entry_with_score:
  assumes "r \<in> set (mergeAndDeduplicate basic smart (Some semantic))"
    and "\<forall>x \<in> set basic \<union> set smart. semanticScore x = None"
    and "semanticScore r \<noteq> None"
  shows "r \<in> set semantic \<and> r_id r \<notin> r_id ` set basic \<union> r_id ` set smart"
proof -
  have "keepUnseen {} (basic @ smart @ semantic)
          = keepUnseen {} (basic @ smart)
            @ keepUnseen ({} \<union> r_id ` set (basic @ smart)) semantic"
    using keepUnseen_append [of "{}" "basic @ smart" semantic] by simp
  then have "r \<in> set (keepUnseen {} (basic @ smart))
             \<or> r \<in> set (keepUnseen ({} \<union> r_id ` set (basic @ smart)) semantic)"
    using assms(1) by (simp add: set_mergeAndDeduplicate)
  then show ?thesis
  proof
    assume "r \<in> set (keepUnseen {} (basic @ smart))"
    then have "r \<in> set (basic @ smart)" using keepUnseen_subset by blast
    then have "semanticScore r = None" using assms(2) by simp
    then show ?thesis using assms(3) by simp
  next
    assume r: "r \<in> set (keepUnseen ({} \<union> r_id ` set (basic @ smart)) semantic)"
    then have "r_id r \<notin> {} \<union> r_id ` set (basic @ smart)" by (rule keepUnseen_fresh)
    moreover have "r \<in> set semantic" using r keepUnseen_subset by blast
    ultimately show ?thesis by (simp add: image_Un)
  qed
qed

text \<open>
  Claim C3, as amended. For a query that is not blank the result list holds one entry
  for every id, and for every id the first pass found that entry is the one of the
  first pass: its \<open>matchedFields\<close> are the first pass's and it has no
  \<open>semanticScore\<close>, whatever score the semantic pass gave the record, so it sorts
  with the score 0. An entry that has a \<open>semanticScore\<close> is an entry of the semantic
  pass whose id neither of the other passes found. The final list is in descending
  order of \<^verbatim>\<open>semanticScore || 0\<close>, the primary key of the sort.
\<close>

theorem C3_first_pass_entry_wins:
  assumes "trim q \<noteq> []" and "search now q (Some gs) (Some ss) e = Inr (rs, e')"
  shows "distinct (map r_id rs)
       \<and> r_id ` set (performBasicSearch (toLowerCase (trim q)) gs ss) \<subseteq> r_id ` set rs
       \<and> (\<forall>r \<in> set rs.
             r_id r \<in> r_id ` set (performBasicSearch (toLowerCase (trim q)) gs ss) \<longrightarrow>
             r \<in> set (performBasicSearch (toLowerCase (trim q)) gs ss)
             \<and> semanticScore r = None \<and> scoreOrZero r = 0)
       \<and> (\<forall>r \<in> set rs.
             semanticScore r \<noteq> None \<longrightarrow>
             r \<in> set (performSemanticSearch (toLowerCase (trim q)) gs ss)
             \<and> r_id r \<notin> r_id ` set (performBasicSearch (toLowerCase (trim q)) gs ss)
             \<and> r_id r \<notin> r_id ` set (performSmartSearch (toLowerCase (trim q)) gs ss))
       \<and> sorted_wrt (\<lambda>a b. scoreOrZero b \<le> scoreOrZero a) rs"
proof -
  let ?tq = "toLowerCase (trim q)"
  let ?basic = "performBasicSearch ?tq gs ss"
  let ?smart = "performSmartSearch ?tq gs ss"
  let ?sem = "performSemanticSearch ?tq gs ss"
  let ?merged = "mergeAndDeduplicate ?basic ?smart (Some ?sem)"
  have rs: "rs = sortByRelevance ?merged ?tq"
    using assms(2) unfolding search_nonblank [OF assms(1)] by (simp add: Let_def)
  have set_rs: "set rs = set ?merged" by (simp add: rs sortByRelevance_def)
  have d: "distinct (map r_id rs)"
    by (simp add: rs sortByRelevance_def distinct_js_sort merged_ids_distinct)
  have sub: "r_id ` set ?basic \<subseteq> r_id ` set rs"
    by (simp only: set_rs merged_ids) blast
  have first: "r \<in> set ?basic \<and> semanticScore r = None \<and> scoreOrZero r = 0"
    if "r \<in> set rs" and "r_id r \<in> r_id ` set ?basic" for r
  proof -
    have "r \<in> set ?basic"
      using that by (simp only: set_rs) (rule merged_entry_from_basic)
    then show ?thesis by (simp add: basic_no_score scoreOrZero_def)
  qed
  have none: "\<forall>x \<in> set ?basic \<union> set ?smart. semanticScore x = None"
    using basic_no_score smart_no_score by blast
  have scored: "r \<in> set ?sem \<and> r_id r \<notin> r_id ` set ?basic \<and> r_id r \<notin> r_id ` set ?smart"
    if "r \<in> set rs" and "semanticScore r \<noteq> None" for r
  proof -
    have "r \<in> set ?merged" using that(1) by (simp only: set_rs)
    from merged_entry_with_score [OF this none that(2)] show ?thesis by simp
  qed
  have "sorted_wrt (\<lambda>a b. scoreOrZero b \<le> scoreOrZero a) rs"
    by (simp only: rs sortByRelevance_sorted)
  with d sub first scored show ?thesis by blast
qed

theorem C3_first_pass_entry_wins_witness:
  "trim ''git'' \<noteq> []
   \<and> search 5 ''git'' (Some []) (Some [github]) (emptyEngine 2)
       = Inr ([siteResult github [''name'', ''url''] None],
              \<lparr> searchHistory = [\<lparr> h_query = ''git'', h_timestamp = 5, resultsCount = 1,
                                    selectedId = None \<rparr>],
                maxHistoryItems = 2 \<rparr>)
   \<and> siteResult github [''name'', ''url''] None \<in> set [siteResult github [''name'', ''url''] None]
   \<and> r_id (siteResult github [''name'', ''url''] None)
       \<in> r_id ` set (performBasicSearch (toLowerCase (trim ''git'')) [] [github])
   \<and> semanticScore (siteResult github [''name'', ''url''] None) = None"
  using C3_first_pass_entry_wins [of "''git''" 5 "[]" "[github]" "emptyEngine 2"
          "[siteResult github [''name'', ''url''] None]"
          "\<lparr> searchHistory = [\<lparr> h_query = ''git'', h_timestamp = 5, resultsCount = 1,
                                 selectedId = None \<rparr>],
             maxHistoryItems = 2 \<rparr>"]
  by code_simp

text \<open>
  Claim C3 as stated fails: for the query \<^verbatim>\<open>git\<close> the site GitHub is matched by the
  first pass and gets the score 20 from the semantic pass, and the merged entry has
  no \<open>semanticScore\<close>.
\<close>

theorem C3_semantic_score_lost_counterexample:
  "performBasicSearch ''git'' [] [github] = [siteResult github [''name'', ''url''] None]
   \<and> performSemanticSearch ''git'' [] [github] = [siteResult github [''semantic''] (Some 20)]
   \<and> search 5 ''git'' (Some []) (Some [github]) (emptyEngine 2)
       = Inr ([siteResult github [''name'', ''url''] None],
              \<lparr> searchHistory = [\<lparr> h_query = ''git'', h_timestamp = 5, resultsCount = 1,
                                    selectedId = None \<rparr>],
                maxHistoryItems = 2 \<rparr>)
   \<and> semanticScore (siteResult github [''name'', ''url''] None) \<noteq> Some 20"
  by code_simp

subsection \<open>Strings\<close>

lemma toLowerCase_append [simp]: "toLowerCase (xs @ ys) = toLowerCase xs @ toLowerCase ys"
  by (simp add: toLowerCase_def)

lemma toLowerCase_Cons: "toLowerCase (c # cs) = toLowerChar c # toLowerCase cs"
  by (simp add: toLowerCase_def)

lemma toLowerCase_undefined [simp]: "toLowerCase ''undefined'' = ''undefined''"
  by code_simp

lemma toLowerCase_space [simp]: "toLowerCase '' '' = '' ''"
  by code_simp

lemma str_includes_iff: "str_includes s sub \<longleftrightarrow> (\<exists>ps ss. s = ps @ sub @ ss)"
proof (induction s)
  case Nil
  then show ?case by auto
next
  case (Cons c cs)
  show ?case
  proof
    assume "str_includes (c # cs) sub"
    then consider "prefix sub (c # cs)" | "str_includes cs sub" by auto
    then show "\<exists>ps ss. c # cs = ps @ sub @ ss"
    proof cases
      case 1
      then obtain ss where "c # cs = sub @ ss" by (auto simp: prefix_def)
      then have "c # cs = [] @ sub @ ss" by simp
      then show ?thesis by blast
    next
      case 2
      then obtain ps ss where "cs = ps @ sub @ ss" using Cons.IH by blast
      then have "c # cs = (c # ps) @ sub @ ss" by simp
      then show ?thesis by blast
    qed
  next
    assume "\<exists>ps ss. c # cs = ps @ sub @ ss"
    then obtain ps ss where eq: "c # cs = ps @ sub @ ss" by blast
    show "str_includes (c # cs) sub"
    proof (cases ps)
      case Nil
      then have "prefix sub (c # cs)" using eq by (simp add: prefix_def)
      then show ?thesis by simp
    next
      case (Cons p ps')
      then have "cs = ps' @ sub @ ss" using eq by simp
      then have "str_includes cs sub" using Cons.IH by blast
      then show ?thesis by simp
    qed
  qed
qed

lemma str_includes_middle: "str_includes (ps @ sub @ ss) sub"
  by (auto simp: str_includes_iff)

subsection \<open>Splitting at white space\<close>

lemma splitAux_word:
  assumes "\<forall>c \<in> set w. \<not> isWhiteSpace c"
  shows "splitAux acc (w @ rest) = splitAux (rev w @ acc) rest"
  using assms
proof (induction w arbitrary: acc)
  case Nil
  then show ?case by simp
next
  case (Cons c w)
  then show ?case by (simp add: splitAux.simps(2) [of acc c])
qed

lemma isWhiteSpace_space [simp]: "isWhiteSpace CHR '' ''"
  by code_simp

text \<open>A word between two spaces is one of the pieces.\<close>

lemma splitAux_word_start:
  assumes "w \<noteq> []" and "\<forall>c \<in> set w. \<not> isWhiteSpace c"
  shows "w \<in> set (splitAux [] (w @ CHR '' '' # ys))"
proof -
  have "splitAux [] (w @ CHR '' '' # ys) = splitAux (rev w) (CHR '' '' # ys)"
    using splitAux_word [OF assms(2), of "[]"] by simp
  then show ?thesis by (simp add: splitAux.simps(2) [of _ "CHR '' ''"])
qed

lemma splitAux_token:
  assumes "w \<noteq> []" and "\<forall>c \<in> set w. \<not> isWhiteSpace c"
  shows "w \<in> set (splitAux acc (xs @ CHR '' '' # w @ CHR '' '' # ys))"
proof (induction xs arbitrary: acc rule: length_induct)
  case (1 xs)
  let ?rest = "CHR '' '' # w @ CHR '' '' # ys"
  have dw: "dropWhile isWhiteSpace (w @ CHR '' '' # ys) = w @ CHR '' '' # ys"
    using assms by (cases w) auto
  have base: "w \<in> set (splitAux acc' (dropWhile isWhiteSpace ?rest))" if "acc' = []" for acc'
    using that splitAux_word_start [OF assms] by (simp add: dw)
  show ?case
  proof (cases xs)
    case Nil
    then show ?thesis using base by (simp add: splitAux.simps(2) [of acc "CHR '' ''"])
  next
    case (Cons c xs')
    show ?thesis
    proof (cases "isWhiteSpace c")
      case False
      have "w \<in> set (splitAux (c # acc) (xs' @ ?rest))"
        using "1.IH" Cons by simp
      then show ?thesis using False Cons by (simp add: splitAux.simps(2) [of acc c])
    next
      case True
      have "w \<in> set (splitAux [] (dropWhile isWhiteSpace (xs' @ ?rest)))"
      proof (cases "\<forall>x \<in> set xs'. isWhiteSpace x")
        case True
        then have "dropWhile isWhiteSpace (xs' @ ?rest) = dropWhile isWhiteSpace ?rest"
          by (simp add: dropWhile_append2)
        then show ?thesis using base by simp
      next
        case False
        then have eq: "dropWhile isWhiteSpace (xs' @ ?rest) = dropWhile isWhiteSpace xs' @ ?rest"
          by (metis dropWhile_append1)
            
        have "length (dropWhile isWhiteSpace xs') < length xs"
          using Cons length_dropWhile_le [of isWhiteSpace xs'] by simp
        then show ?thesis using "1.IH" by (simp add: eq)
      qed
      then show ?thesis using True Cons by (simp add: splitAux.simps(2) [of acc c])
    qed
  qed
qed

lemma no_space_undefined [simp]: "\<forall>c \<in> set ''undefined''. \<not> isWhiteSpace c"
  by code_simp

lemma toLowerChar_undefined:
  "toLowerChar CHR '' '' = CHR '' ''" "toLowerChar CHR ''u'' = CHR ''u''"
  "toLowerChar CHR ''n'' = CHR ''n''" "toLowerChar CHR ''d'' = CHR ''d''"
  "toLowerChar CHR ''e'' = CHR ''e''" "toLowerChar CHR ''f'' = CHR ''f''"
  "toLowerChar CHR ''i'' = CHR ''i''"
  by code_simp+

lemma toLowerCase_Nil [simp]: "toLowerCase [] = []"
  by (simp add: toLowerCase_def)

lemma siteText_shape:
  assumes "description s = None \<or> s_notes s = None"
  shows "\<exists>xs ys. siteText s = xs @ CHR '' '' # ''undefined'' @ CHR '' '' # ys"
proof -
  show ?thesis
  proof (cases "description s = None")
    case True
    have "siteText s = toLowerCase (s_name s) @ CHR '' '' # ''undefined''
                       @ CHR '' '' # (toLowerCase (interpolate (s_notes s)) @ '' '' @ toLowerCase (url s))"
      by (simp add: siteText_def True interpolate_def toLowerCase_Cons toLowerChar_undefined)
    then show ?thesis by blast
  next
    case False
    with assms have n: "s_notes s = None" by blast
    have "siteText s = (toLowerCase (s_name s) @ '' '' @ toLowerCase (interpolate (description s)))
                       @ CHR '' '' # ''undefined'' @ CHR '' '' # toLowerCase (url s)"
      by (simp add: siteText_def n interpolate_def toLowerCase_Cons toLowerChar_undefined)
    then show ?thesis by blast
  qed
qed

lemma siteText_undefined:
  assumes "description s = None \<or> s_notes s = None"
  shows "str_includes (siteText s) ''undefined''" and "''undefined'' \<in> set (splitWs (siteText s))"
proof -
  obtain xs ys where eq: "siteText s = xs @ CHR '' '' # ''undefined'' @ CHR '' '' # ys"
    using siteText_shape [OF assms] by blast
  have "siteText s = (xs @ '' '') @ ''undefined'' @ (CHR '' '' # ys)" by (simp add: eq)
  then show "str_includes (siteText s) ''undefined''"
    by (simp only: str_includes_middle)
  show "''undefined'' \<in> set (splitWs (siteText s))"
    unfolding splitWs_def eq by (rule splitAux_token) simp_all
qed

subsection \<open>The semantic pass on a site with an absent field\<close>

lemma queryTermsOf_undefined: "queryTermsOf ''undefined'' = [''undefined'']"
  by code_simp

lemma trim_undefined: "trim ''undefined'' = ''undefined''"
  by code_simp

lemma similarity_undefined: "calculateSimilarity ''undefined'' ''undefined'' > 7 / 10"
  by code_simp

lemma fuzzy_fold_mono:
  "s0 \<le> fold (\<lambda>word score. if P word then score + 5 else score) ws (s0 :: int)"
proof (induction ws arbitrary: s0)
  case Nil
  then show ?case by simp
next
  case (Cons w ws)
  have "s0 \<le> (if P w then s0 + 5 else s0)" by simp
  also have "\<dots> \<le> fold (\<lambda>word score. if P word then score + 5 else score) ws
                      (if P w then s0 + 5 else s0)"
    by (rule Cons.IH)
  finally show ?case by simp
qed

lemma fuzzy_fold_hit:
  assumes "w \<in> set ws" and "P w"
  shows "s0 + 5 \<le> fold (\<lambda>word score. if P word then score + 5 else score) ws (s0 :: int)"
  using assms(1)
proof (induction ws arbitrary: s0)
  case Nil
  then show ?case by simp
next
  case (Cons v ws)
  show ?case
  proof (cases "v = w")
    case True
    have "s0 + 5 \<le> fold (\<lambda>word score. if P word then score + 5 else score) ws (s0 + 5)"
      by (rule fuzzy_fold_mono)
    then show ?thesis using True assms(2) by simp
  next
    case False
    then have "w \<in> set ws" using Cons.prems by simp
    then have "(if P v then s0 + 5 else s0) + 5
                 \<le> fold (\<lambda>word score. if P word then score + 5 else score) ws
                      (if P v then s0 + 5 else s0)"
      by (rule Cons.IH)
    then show ?thesis by (simp split: if_splits)
  qed
qed

lemma semanticScoreOf_single:
  "semanticScoreOf text [term]
     = fold (\<lambda>word score. if calculateSimilarity term word > 7 / 10 then score + 5 else score)
            (splitWs text) (if str_includes text term then 10 else 0)"
  unfolding semanticScoreOf_def by (simp only: fold_simps id_apply comp_apply add_0)

lemma semanticScore_undefined:
  assumes "description s = None \<or> s_notes s = None"
  shows "15 \<le> semanticScoreOf (siteText s) [''undefined'']"
proof -
  let ?P = "\<lambda>word. calculateSimilarity ''undefined'' word > 7 / 10"
  have inc: "str_includes (siteText s) ''undefined''"
    and tok: "''undefined'' \<in> set (splitWs (siteText s))"
    by (rule siteText_undefined [OF assms])+
  have "semanticScoreOf (siteText s) [''undefined'']
          = fold (\<lambda>word score. if ?P word then score + 5 else score) (splitWs (siteText s)) 10"
    unfolding semanticScoreOf_single using inc by (simp only: if_True)
  moreover have "10 + 5 \<le> fold (\<lambda>word score. if ?P word then score + 5 else score)
                             (splitWs (siteText s)) (10 :: int)"
    by (rule fuzzy_fold_hit [of "''undefined''" "splitWs (siteText s)" ?P 10,
              OF tok similarity_undefined])
  ultimately show ?thesis by linarith
qed

lemma semantic_single_site:
  "performSemanticSearch q [] [s]
     = (if semanticScoreOf (siteText s) (queryTermsOf q) > 0
        then [siteResult s [''semantic''] (Some (semanticScoreOf (siteText s) (queryTermsOf q)))]
        else [])"
  by (simp add: performSemanticSearch_def Let_def)

lemma basic_single_site:
  "performBasicSearch q [] [s]
     = (if matchesQuery (SiteItem s) q then [siteResult s (getMatchingFields (SiteItem s) q) None]
        else [])"
  by (simp add: performBasicSearch_def)

lemma smart_single_site:
  "performSmartSearch q [] [s]
     = (if calculateRelevanceScore (SiteItem s) (queryTermsOf q) > 0
        then [siteResult s (getMatchingFields (SiteItem s) q) None] else [])"
  by (simp add: performSmartSearch_def Let_def js_sort_def)

lemma keepUnseen_same_id:
  assumes "\<forall>x \<in> set xs. r_id x = i" and "xs \<noteq> []"
  shows "keepUnseen seen xs = (if i \<in> seen then [] else [hd xs])"
  using assms
proof (induction xs arbitrary: seen)
  case Nil
  then show ?case by simp
next
  case (Cons x xs)
  have all: "\<forall>y \<in> set xs. r_id y = i" and x: "r_id x = i" using Cons.prems by simp_all
  have tail: "keepUnseen seen' xs = []" if "i \<in> seen'" for seen'
  proof (cases xs)
    case Nil
    then show ?thesis by simp
  next
    case (Cons y ys)
    then show ?thesis using Cons.IH [of seen'] all that by simp
  qed
  show ?case using x tail [of seen] tail [of "insert i seen"] by simp
qed

lemma search_undefined_single_site:
  assumes "description s = None \<or> s_notes s = None"
  shows "\<exists>r e'. search now ''undefined'' (Some []) (Some [s]) e = Inr ([r], e')
               \<and> r_type r = TSite \<and> r_id r = s_id s \<and> r_name r = s_name s"
proof -
  let ?q = "''undefined''"
  let ?all = "performBasicSearch ?q [] [s] @ performSmartSearch ?q [] [s]
              @ performSemanticSearch ?q [] [s]"
  have pos: "semanticScoreOf (siteText s) (queryTermsOf ?q) > 0"
    using semanticScore_undefined [OF assms] by (simp only: queryTermsOf_undefined)
  have ne: "?all \<noteq> []" using pos by (simp only: semantic_single_site if_True) simp
  have shape: "r_type x = TSite \<and> r_id x = s_id s \<and> r_name x = s_name s" if "x \<in> set ?all" for x
  proof -
    have "x \<in> set (performBasicSearch ?q [] [s]) \<or> x \<in> set (performSmartSearch ?q [] [s])
            \<or> x \<in> set (performSemanticSearch ?q [] [s])"
      using that by (simp only: set_append Un_iff)
    then consider "x \<in> set (performBasicSearch ?q [] [s])" | "x \<in> set (performSmartSearch ?q [] [s])"
      | "x \<in> set (performSemanticSearch ?q [] [s])"
      by blast
    then show ?thesis
    proof cases
      case 1
      then show ?thesis by (simp only: basic_single_site split: if_splits) (simp_all add: siteResult_def)
    next
      case 2
      then show ?thesis by (simp only: smart_single_site split: if_splits) (simp_all add: siteResult_def)
    next
      case 3
      then show ?thesis by (simp only: semantic_single_site split: if_splits) (simp_all add: siteResult_def)
    qed
  qed
  then have ids: "\<forall>x \<in> set ?all. r_id x = s_id s" by blast
  have keep: "keepUnseen {} ?all = [hd ?all]"
    using keepUnseen_same_id [OF ids ne, of "{}"] by simp
  have hd: "r_type (hd ?all) = TSite \<and> r_id (hd ?all) = s_id s \<and> r_name (hd ?all) = s_name s"
    using shape [of "hd ?all"] hd_in_set [OF ne] by blast
  have tq: "trim ?q \<noteq> []" "toLowerCase (trim ?q) = ?q"
    by (simp_all add: trim_undefined)
  have merged: "mergeAndDeduplicate (performBasicSearch ?q [] [s]) (performSmartSearch ?q [] [s])
                  (Some (performSemanticSearch ?q [] [s])) = [hd ?all]"
    by (simp only: mergeAndDeduplicate_keepUnseen keep) (simp add: js_sort_def)
  have "search now ?q (Some []) (Some [s]) e
          = Inr (sortByRelevance [hd ?all] ?q, recordSearch now ?q (length [hd ?all]) e)"
    using search_nonblank [OF tq(1), of now "[]" "[s]" e]
    by (simp only: tq(2) Let_def merged)
  then have "search now ?q (Some []) (Some [s]) e = Inr ([hd ?all], recordSearch now ?q 1 e)"
    by (simp add: sortByRelevance_def js_sort_def)
  then show ?thesis using hd by blast
qed

text \<open>
  Claim C9. For every site whose description or notes is absent, the text the semantic
  pass builds contains \<^verbatim>\<open>undefined\<close>, as a substring and as one of its white-space
  separated pieces. For the query \<^verbatim>\<open>undefined\<close> such a site gets a semantic score of
  at least 15 and, searched for alone, is the one result. The site GitHub, none of
  whose fields contains the query, is found with the score 20.
\<close>

theorem C9_absent_field_reads_undefined:
  assumes "description s = None \<or> s_notes s = None"
  shows "str_includes (siteText s) ''undefined''
       \<and> ''undefined'' \<in> set (splitWs (siteText s))
       \<and> (\<exists>score. performSemanticSearch ''undefined'' [] [s]
                      = [siteResult s [''semantic''] (Some score)] \<and> 15 \<le> score)
       \<and> (\<exists>r e'. search now ''undefined'' (Some []) (Some [s]) e = Inr ([r], e')
                  \<and> r_type r = TSite \<and> r_id r = s_id s \<and> r_name r = s_name s)
       \<and> \<not> matchesQuery (SiteItem github) ''undefined''
       \<and> getMatchingFields (SiteItem github) ''undefined'' = []
       \<and> search 5 ''undefined'' (Some []) (Some [github]) (emptyEngine 2)
           = Inr ([siteResult github [''semantic''] (Some 20)],
                  \<lparr> searchHistory = [\<lparr> h_query = ''undefined'', h_timestamp = 5,
                                        resultsCount = 1, selectedId = None \<rparr>],
                    maxHistoryItems = 2 \<rparr>)"
proof -
  have score: "15 \<le> semanticScoreOf (siteText s) (queryTermsOf ''undefined'')"
    using semanticScore_undefined [OF assms] by (simp only: queryTermsOf_undefined)
  then have "0 < semanticScoreOf (siteText s) (queryTermsOf ''undefined'')" by linarith
  then have "performSemanticSearch ''undefined'' [] [s]
               = [siteResult s [''semantic'']
                    (Some (semanticScoreOf (siteText s) (queryTermsOf ''undefined'')))]"
    by (simp only: semantic_single_site if_True)
  then have sem: "\<exists>score. performSemanticSearch ''undefined'' [] [s]
                      = [siteResult s [''semantic''] (Some score)] \<and> 15 \<le> score"
    using score by blast
  have g1: "\<not> matchesQuery (SiteItem github) ''undefined''" by code_simp
  have g2: "getMatchingFields (SiteItem github) ''undefined'' = []" by code_simp
  have g3: "search 5 ''undefined'' (Some []) (Some [github]) (emptyEngine 2)
           = Inr ([siteResult github [''semantic''] (Some 20)],
                  \<lparr> searchHistory = [\<lparr> h_query = ''undefined'', h_timestamp = 5,
                                        resultsCount = 1, selectedId = None \<rparr>],
                    maxHistoryItems = 2 \<rparr>)"
    by code_simp
  from siteText_undefined [OF assms] sem search_undefined_single_site [OF assms, of now e] g1 g2 g3
  show ?thesis by blast
qed

theorem C9_absent_field_reads_undefined_witness:
  "(description github = None \<or> s_notes github = None)
   \<and> siteText github = ''github undefined undefined https://github.com''
   \<and> str_includes (siteText github) ''undefined''
   \<and> ''undefined'' \<in> set (splitWs (siteText github))
   \<and> performSemanticSearch ''undefined'' [] [github] = [siteResult github [''semantic''] (Some 20)]"
proof -
  have h: "description github = None \<or> s_notes github = None" by (simp add: github_def)
  have t: "siteText github = ''github undefined undefined https://github.com''" by code_simp
  have sem: "performSemanticSearch ''undefined'' [] [github]
               = [siteResult github [''semantic''] (Some 20)]"
    by code_simp
  from C9_absent_field_reads_undefined [OF h, of 5 "emptyEngine 2"]
  have "str_includes (siteText github) ''undefined''
        \<and> ''undefined'' \<in> set (splitWs (siteText github))"
    by blast
  with h t sem show ?thesis by blast
qed

subsection \<open>Order of the results\<close>

lemma before_append_left: "before x y xs \<Longrightarrow> before x y (xs @ ys)"
  by (induction xs) auto

lemma before_map: "before a b xs \<Longrightarrow> before (f a) (f b) (map f xs)"
  by (induction xs) auto

lemma before_filter: "before a b xs \<Longrightarrow> P a \<Longrightarrow> P b \<Longrightarrow> before a b (filter P xs)"
  by (induction xs) auto

lemma before_insertBy_keep: "before x y zs \<Longrightarrow> before x y (insertBy cmp w zs)"
  by (induction zs) auto

lemma before_insertBy_new:
  "y \<in> set zs \<Longrightarrow> cmp x y \<le> 0 \<Longrightarrow> before x y (insertBy cmp x zs)"
  by (induction zs) auto

text \<open>The sort is stable: an element stays before a later one it does not follow.\<close>

lemma before_js_sort:
  assumes "before x y xs" and "cmp x y \<le> 0"
  shows "before x y (js_sort cmp xs)"
  using assms(1)
proof (induction xs)
  case Nil
  then show ?case by simp
next
  case (Cons w ws)
  from Cons.prems consider "w = x" "y \<in> set ws" | "before x y ws" by auto
  then show ?case
  proof cases
    case 1
    then have "before x y (insertBy cmp x (js_sort cmp ws))"
      using assms(2) by (intro before_insertBy_new) simp_all
    then show ?thesis using 1 by (simp add: js_sort_Cons)
  next
    case 2
    then have "before x y (js_sort cmp ws)" by (rule Cons.IH)
    then show ?thesis by (simp add: js_sort_Cons before_insertBy_keep)
  qed
qed

lemma toLowerCase_abc: "toLowerCase ''abc'' = ''abc''" "toLowerCase ''abcdef'' = ''abcdef''"
  by code_simp+

lemma trim_abc: "trim ''abc'' = ''abc''"
  by code_simp

lemma matchesQuery_name_abc:
  assumes "s_name a = ''abc'' \<or> s_name a = ''abcdef''"
  shows "matchesQuery (SiteItem a) ''abc''"
proof -
  let ?rest = "toLowerCase ('' '' @ url a @ '' '' @ orEmpty (description a) @ '' ''
                 @ orEmpty (s_notes a))"
  have itemText: "getItemTextForScoring (SiteItem a) = toLowerCase (s_name a) @ ?rest"
    by (simp only: getItemTextForScoring_def item.case toLowerCase_append)
  from assms show ?thesis
  proof
    assume "s_name a = ''abc''"
    then have "getItemTextForScoring (SiteItem a) = [] @ ''abc'' @ ?rest"
      by (simp only: itemText toLowerCase_abc append_Nil)
    then show ?thesis by (simp only: matchesQuery_def str_includes_middle)
  next
    assume "s_name a = ''abcdef''"
    then have "getItemTextForScoring (SiteItem a) = ''abcdef'' @ ?rest"
      by (simp only: itemText toLowerCase_abc)
    then have "getItemTextForScoring (SiteItem a) = [] @ ''abc'' @ (''def'' @ ?rest)"
      by simp
    then show ?thesis by (simp only: matchesQuery_def str_includes_middle)
  qed
qed

lemma basic_sites_first:
  "performBasicSearch q gs ss
     = map (\<lambda>s. siteResult s (getMatchingFields (SiteItem s) q) None)
           (filter (\<lambda>s. matchesQuery (SiteItem s) q) ss)
       @ map (\<lambda>g. groupResult g (getMatchingFields (GroupItem g) q) None)
             (filter (\<lambda>g. matchesQuery (GroupItem g) q) gs)"
  by (simp add: performBasicSearch_def)

lemma r_id_siteResult [simp]: "r_id (siteResult s mf sc) = s_id s"
  by (simp add: siteResult_def)

text \<open>Two sites that the first pass finds keep their order in the result list when
  the ids of the sites are distinct and the first has no fewer matched fields.\<close>

lemma search_keeps_site_order:
  assumes tq: "trim q \<noteq> []" "toLowerCase (trim q) = tq"
    and ab: "before a b ss" and d: "distinct (map s_id ss)"
    and ma: "matchesQuery (SiteItem a) tq" and mb: "matchesQuery (SiteItem b) tq"
    and len: "length (getMatchingFields (SiteItem b) tq) \<le> length (getMatchingFields (SiteItem a) tq)"
  shows "\<exists>rs e'. search now q (Some gs) (Some ss) e = Inr (rs, e')
           \<and> before (siteResult a (getMatchingFields (SiteItem a) tq) None)
                    (siteResult b (getMatchingFields (SiteItem b) tq) None) rs
           \<and> distinct (map r_id rs)"
proof -
  let ?f = "\<lambda>s. siteResult s (getMatchingFields (SiteItem s) tq) None"
  let ?S = "map ?f (filter (\<lambda>s. matchesQuery (SiteItem s) tq) ss)"
  let ?G = "map (\<lambda>g. groupResult g (getMatchingFields (GroupItem g) tq) None)
                (filter (\<lambda>g. matchesQuery (GroupItem g) tq) gs)"
  let ?basic = "performBasicSearch tq gs ss"
  let ?smart = "performSmartSearch tq gs ss"
  let ?sem = "performSemanticSearch tq gs ss"
  let ?merged = "mergeAndDeduplicate ?basic ?smart (Some ?sem)"
  have basic: "?basic = ?S @ ?G" by (rule basic_sites_first)
  have "before a b (filter (\<lambda>s. matchesQuery (SiteItem s) tq) ss)"
    using ab ma mb by (rule before_filter)
  then have S: "before (?f a) (?f b) ?S" by (rule before_map)
  have "map r_id ?S = map s_id (filter (\<lambda>s. matchesQuery (SiteItem s) tq) ss)"
    by (simp add: comp_def)
  then have dS: "distinct (map r_id ?S)"
    using d by (simp only: distinct_map_filter)
  have "keepUnseen {} (?basic @ ?smart @ ?sem)
          = keepUnseen {} ?S @ keepUnseen ({} \<union> r_id ` set ?S) (?G @ ?smart @ ?sem)"
    by (simp only: basic append_assoc keepUnseen_append [of "{}" ?S])
  also have "keepUnseen {} ?S = ?S"
    using dS by (rule keepUnseen_id) simp
  finally have "before (?f a) (?f b) (keepUnseen {} (?basic @ ?smart @ ?sem))"
    using S by (simp only: before_append_left)
  moreover have "compareTypeThenFields (?f a) (?f b) \<le> 0"
    using len by (simp add: compareTypeThenFields_def siteResult_def)
  ultimately have m: "before (?f a) (?f b) ?merged"
    by (simp only: mergeAndDeduplicate_keepUnseen before_js_sort)
  have "compareRelevance (?f a) (?f b) \<le> 0"
    using len by (simp add: compareRelevance_def scoreOrZero_def compareTypeThenFields_def siteResult_def)
  with m have r: "before (?f a) (?f b) (sortByRelevance ?merged tq)"
    by (simp only: sortByRelevance_def before_js_sort)
  have dr: "distinct (map r_id (sortByRelevance ?merged tq))"
    by (simp only: sortByRelevance_def distinct_js_sort merged_ids_distinct)
  have "search now q (Some gs) (Some ss) e
          = Inr (sortByRelevance ?merged tq, recordSearch now q (length ?merged) e)"
    using search_nonblank [OF tq(1), of now gs ss e] by (simp only: tq(2) Let_def)
  with r dr show ?thesis by blast
qed

text \<open>
  Claim C4, as amended. For the query \<^verbatim>\<open>abc\<close> and sites with distinct ids: when the
  site named \<^verbatim>\<open>abc\<close> stands before the site named \<^verbatim>\<open>abcdef\<close> in the input array
  and has no fewer matched fields, its result stands before the other's in the list
  \<^verbatim>\<open>search\<close> returns. Both entries come from the first pass and carry no semantic
  score, so the sort compares their numbers of matched fields and, being stable,
  keeps the input order on a tie.
\<close>

theorem C4_exact_name_keeps_input_order:
  assumes "before a b ss" and "distinct (map s_id ss)"
    and "s_name a = ''abc''" and "s_name b = ''abcdef''"
    and "length (getMatchingFields (SiteItem b) ''abc'')
           \<le> length (getMatchingFields (SiteItem a) ''abc'')"
  shows "\<exists>rs e'. search now ''abc'' (Some gs) (Some ss) e = Inr (rs, e')
           \<and> before (siteResult a (getMatchingFields (SiteItem a) ''abc'') None)
                    (siteResult b (getMatchingFields (SiteItem b) ''abc'') None) rs
           \<and> distinct (map r_id rs)"
proof -
  have tq: "trim ''abc'' \<noteq> []" "toLowerCase (trim ''abc'') = ''abc''"
    by (simp_all add: trim_abc toLowerCase_abc)
  have ma: "matchesQuery (SiteItem a) ''abc''"
    using assms(3) by (intro matchesQuery_name_abc) simp
  have mb: "matchesQuery (SiteItem b) ''abc''"
    using assms(4) by (intro matchesQuery_name_abc) simp
  show ?thesis
    using tq assms(1,2) ma mb assms(5) by (rule search_keeps_site_order)
qed

theorem C4_exact_name_keeps_input_order_witness:
  "before siteAbc siteAbcdef [siteAbc, siteAbcdef]
   \<and> distinct (map s_id [siteAbc, siteAbcdef])
   \<and> s_name siteAbc = ''abc'' \<and> s_name siteAbcdef = ''abcdef''
   \<and> length (getMatchingFields (SiteItem siteAbcdef) ''abc'')
       \<le> length (getMatchingFields (SiteItem siteAbc) ''abc'')
   \<and> (\<exists>rs e'. search 5 ''abc'' (Some []) (Some [siteAbc, siteAbcdef]) (emptyEngine 2)
                  = Inr (rs, e')
         \<and> before (siteResult siteAbc (getMatchingFields (SiteItem siteAbc) ''abc'') None)
                  (siteResult siteAbcdef (getMatchingFields (SiteItem siteAbcdef) ''abc'') None)
                  rs
         \<and> distinct (map r_id rs))
   \<and> search 5 ''abc'' (Some []) (Some [siteAbc, siteAbcdef]) (emptyEngine 2)
       = Inr ([siteResult siteAbc [''name''] None, siteResult siteAbcdef [''name''] None],
              \<lparr> searchHistory = [\<lparr> h_query = ''abc'', h_timestamp = 5, resultsCount = 2,
                                    selectedId = None \<rparr>],
                maxHistoryItems = 2 \<rparr>)"
proof -
  have h1: "before siteAbc siteAbcdef [siteAbc, siteAbcdef]" by code_simp
  have h2: "distinct (map s_id [siteAbc, siteAbcdef])" by code_simp
  have h3: "s_name siteAbc = ''abc''" by (simp add: siteAbc_def)
  have h4: "s_name siteAbcdef = ''abcdef''" by (simp add: siteAbcdef_def)
  have h5: "length (getMatchingFields (SiteItem siteAbcdef) ''abc'')
              \<le> length (getMatchingFields (SiteItem siteAbc) ''abc'')"
    by code_simp
  have run: "search 5 ''abc'' (Some []) (Some [siteAbc, siteAbcdef]) (emptyEngine 2)
       = Inr ([siteResult siteAbc [''name''] None, siteResult siteAbcdef [''name''] None],
              \<lparr> searchHistory = [\<lparr> h_query = ''abc'', h_timestamp = 5, resultsCount = 2,
                                    selectedId = None \<rparr>],
                maxHistoryItems = 2 \<rparr>)"
    by code_simp
  from C4_exact_name_keeps_input_order [OF h1 h2 h3 h4 h5, of 5 "[]" "emptyEngine 2"]
    h1 h2 h3 h4 h5 run
  show ?thesis by blast
qed

text \<open>
  Claim C4 as stated fails. With the site named \<^verbatim>\<open>abcdef\<close> first in the input
  array and one matched field each, the result for \<^verbatim>\<open>abcdef\<close> is the first and the
  one for \<^verbatim>\<open>abc\<close> the second. With \<^verbatim>\<open>abc\<close> first in the input, a site
  \<^verbatim>\<open>abcdef\<close> whose url contains the query as well has two matched fields and is
  ranked first.
\<close>

theorem C4_input_order_counterexample:
  "s_name siteAbc = ''abc'' \<and> s_name siteAbcdef = ''abcdef''
   \<and> search 5 ''abc'' (Some []) (Some [siteAbcdef, siteAbc]) (emptyEngine 2)
       = Inr ([siteResult siteAbcdef [''name''] None, siteResult siteAbc [''name''] None],
              \<lparr> searchHistory = [\<lparr> h_query = ''abc'', h_timestamp = 5, resultsCount = 2,
                                    selectedId = None \<rparr>],
                maxHistoryItems = 2 \<rparr>)
   \<and> s_name siteAbcdefUrl = ''abcdef''
   \<and> search 5 ''abc'' (Some []) (Some [siteAbc, siteAbcdefUrl]) (emptyEngine 2)
       = Inr ([siteResult siteAbcdefUrl [''name'', ''url''] None, siteResult siteAbc [''name''] None],
              \<lparr> searchHistory = [\<lparr> h_query = ''abc'', h_timestamp = 5, resultsCount = 2,
                                    selectedId = None \<rparr>],
                maxHistoryItems = 2 \<rparr>)"
  by code_simp

end
